theory Spec2Isabelle
  imports Main "HOL-Library.Word"
begin

section \<open>Tokens, operands and commands\<close>

text \<open>
  The parser of \<^verbatim>\<open>src/ci/parser.c\<close> works on the types of \<^verbatim>\<open>token_type.h\<close>,
  \<^verbatim>\<open>command_type.h\<close>, \<^verbatim>\<open>command.h\<close> and \<^verbatim>\<open>parser.h\<close>. The token kinds are the ones
  \<^verbatim>\<open>parser.c\<close> names; \<open>TOK_OTHER\<close> stands for every kind it does not name (they all
  reach the \<^verbatim>\<open>default\<close> branch of \<^verbatim>\<open>parse_cmd\<close>). The command kinds are the six that
  \<^verbatim>\<open>parse_cmd\<close> creates, and \<open>BRANCH_NONE\<close> is the one branch condition it sets.
\<close>

datatype TokenType =
  TOK_ADD | TOK_SUB | TOK_MOV | TOK_CMP | TOK_CMP_U | TOK_PRINT
  | TOK_IDENT | TOK_NUM | TOK_NL | TOK_EOF | TOK_OTHER

text \<open>
  A token borrows its text from the source buffer: \<open>lexeme\<close> is a pointer into the
  buffer and \<open>tok_length\<close> the number of characters that belong to the token (the code
  prints a token with \<^verbatim>\<open>%.*s\<close> and compares \<^verbatim>\<open>lexeme + length\<close> with an end pointer).
  The pointer is modelled by the text it points at: the source from the first character
  of the token up to the terminating NUL. The fields \<^verbatim>\<open>type\<close> and \<^verbatim>\<open>length\<close> of the code
  are \<open>tok_type\<close> and \<open>tok_length\<close> here, and the field \<^verbatim>\<open>type\<close> of a command is
  \<open>cmd_type\<close>.
\<close>

record Token =
  tok_type :: TokenType
  lexeme :: string
  tok_length :: nat
  line :: nat
  column :: nat

datatype CommandType = CMD_ADD | CMD_SUB | CMD_MOV | CMD_CMP | CMD_CMP_U | CMD_PRINT

datatype BranchCondition = BRANCH_NONE

text \<open>
  An operand is one value slot read through the member that was written last:
  \<^verbatim>\<open>num_val\<close> (64 bits), \<^verbatim>\<open>base\<close> (a register index) or \<^verbatim>\<open>str_val\<close> (an owned string).
\<close>

datatype Operand = Num_val "64 word" | Base int | Str_val string

text \<open>The \<^verbatim>\<open>next\<close> link of a command is the order of the list that holds it.\<close>

record Command =
  cmd_type :: CommandType
  destination :: Operand
  val_a :: Operand
  val_b :: Operand
  is_a_immediate :: bool
  is_a_string :: bool
  is_b_immediate :: bool
  is_b_string :: bool
  branch_condition :: BranchCondition

text \<open>
  Modelled from the spec: \<^verbatim>\<open>lexer_next_token\<close> is not part of \<^verbatim>\<open>parser.c\<close>. The lexer
  produces a finite sequence of tokens terminated by a sentinel end-of-input token; its
  state is the tokens it has not produced yet, and once they are used up it answers with
  the sentinel, whose position is \<open>eof_line\<close> and \<open>eof_column\<close>.
\<close>

record Lexer =
  pending :: "Token list"
  eof_line :: nat
  eof_column :: nat

definition eof_token :: "Lexer \<Rightarrow> Token" where
  "eof_token lx =
     \<lparr>tok_type = TOK_EOF, lexeme = [], tok_length = 0, line = eof_line lx, column = eof_column lx\<rparr>"

definition lexer_next_token :: "Lexer \<Rightarrow> Token \<times> Lexer" where
  "lexer_next_token lx =
     (case pending lx of
        [] \<Rightarrow> (eof_token lx, lx)
      | t # ts \<Rightarrow> (t, lx\<lparr>pending := ts\<rparr>))"

text \<open>
  What \<^verbatim>\<open>print_error\<close> writes to the standard output for one failure: the text of the
  current token (or the end-of-input marker), its kind, its length and its position.
\<close>

record Diagnostic =
  at_token :: string
  token_type :: TokenType
  token_length :: nat
  at_line :: nat
  at_column :: nat

text \<open>
  The parser state of \<^verbatim>\<open>parser.h\<close>; the field \<^verbatim>\<open>next\<close> is \<open>next_tok\<close> here. The label
  map is carried unused by the code and is left out. \<open>diagnostics\<close> is the standard
  output, one entry for each call of \<^verbatim>\<open>print_error\<close>.
\<close>

record Parser =
  lexer :: Lexer
  had_error :: bool
  current :: Token
  next_tok :: Token
  diagnostics :: "Diagnostic list"

section \<open>C strings and the C library\<close>

text \<open>Reading \<^verbatim>\<open>s[i]\<close>: past the last character stands the terminating NUL.\<close>

definition char_at :: "string \<Rightarrow> nat \<Rightarrow> char" where
  "char_at s i = (if i < length s then s ! i else CHR 0x00)"

definition strdup :: "string \<Rightarrow> string" where
  "strdup s = takeWhile (\<lambda>c. c \<noteq> CHR 0x00) s"

definition isspace_c :: "char \<Rightarrow> bool" where
  "isspace_c c = (c = CHR '' '' \<or> (9 \<le> (of_char c :: nat) \<and> (of_char c :: nat) \<le> 13))"

definition isdigit_c :: "char \<Rightarrow> bool" where
  "isdigit_c c = (48 \<le> (of_char c :: nat) \<and> (of_char c :: nat) \<le> 57)"

fun decimal :: "nat \<Rightarrow> string \<Rightarrow> nat" where
  "decimal acc [] = acc"
| "decimal acc (c # cs) = decimal (acc * 10 + (of_char c - 48)) cs"

definition clamp_long :: "int \<Rightarrow> int" where
  "clamp_long v = max (- (2 ^ 63)) (min (2 ^ 63 - 1) v)"

text \<open>
  \<^verbatim>\<open>strtol(s, &endptr, 10)\<close> of the C library, with a 64-bit \<^verbatim>\<open>long\<close>: white space, an
  optional sign, then decimal digits. The result is the value, clamped to the range of
  \<^verbatim>\<open>long\<close>, and the number of characters between \<^verbatim>\<open>s\<close> and \<^verbatim>\<open>endptr\<close>; without a
  digit nothing is converted and \<^verbatim>\<open>endptr\<close> is \<^verbatim>\<open>s\<close>.
\<close>

definition strtol10 :: "string \<Rightarrow> int \<times> nat" where
  "strtol10 s =
     (let ws = takeWhile isspace_c s;
          r = dropWhile isspace_c s;
          sign = (if r \<noteq> [] \<and> (hd r = CHR ''-'' \<or> hd r = CHR ''+'') then 1 else 0);
          neg = (r \<noteq> [] \<and> hd r = CHR ''-'');
          ds = takeWhile isdigit_c (drop sign r)
      in if ds = [] then (0, 0)
         else (clamp_long (if neg then - int (decimal 0 ds) else int (decimal 0 ds)),
               length ws + sign + length ds))"

section \<open>The parser\<close>

text \<open>
  The functions of \<^verbatim>\<open>parser.c\<close>, in its order. A function that takes the parser by
  pointer takes the parser state and returns the new one beside its result. Two
  functions of the file are never called and are left out: \<^verbatim>\<open>parse_number\<close> and the
  stub \<^verbatim>\<open>parse_base\<close>. \<^verbatim>\<open>free_command\<close> and \<^verbatim>\<open>print_commands\<close> belong to other files;
  the first releases a command that is not returned, the second prints the finished
  list.
\<close>

definition parser_init :: "Lexer \<Rightarrow> Parser" where
  "parser_init lx =
     (let (c, lx1) = lexer_next_token lx;
          (n, lx2) = lexer_next_token lx1
      in \<lparr>lexer = lx2, had_error = False, current = c, next_tok = n, diagnostics = []\<rparr>)"

definition is_at_end :: "Parser \<Rightarrow> bool" where
  "is_at_end parser = (tok_type (current parser) = TOK_EOF)"

definition advance :: "Parser \<Rightarrow> Token \<times> Parser" where
  "advance parser =
     (let ret_token = current parser
      in if \<not> is_at_end parser
         then (ret_token,
               parser\<lparr>current := next_tok parser,
                      next_tok := fst (lexer_next_token (lexer parser)),
                      lexer := snd (lexer_next_token (lexer parser))\<rparr>)
         else (ret_token, parser))"

definition consume :: "Parser \<Rightarrow> TokenType \<Rightarrow> bool \<times> Parser" where
  "consume parser ty =
     (if tok_type (current parser) = ty then (True, snd (advance parser)) else (False, parser))"

definition create_command :: "CommandType \<Rightarrow> Command" where
  "create_command ty =
     \<lparr>cmd_type = ty, destination = Num_val 0, val_a = Num_val 0, val_b = Num_val 0,
      is_a_immediate = False, is_a_string = False, is_b_immediate = False,
      is_b_string = False, branch_condition = BRANCH_NONE\<rparr>"

definition is_variable :: "Token \<Rightarrow> bool" where
  "is_variable token = (tok_length token \<ge> 2 \<and> char_at (lexeme token) 0 = CHR ''x'')"

definition is_base :: "Token \<Rightarrow> bool" where
  "is_base token =
     (tok_length token = 1 \<and>
      (char_at (lexeme token) 0 = CHR ''d'' \<or> char_at (lexeme token) 0 = CHR ''x'' \<or>
       char_at (lexeme token) 0 = CHR ''s'' \<or> char_at (lexeme token) 0 = CHR ''b''))"

definition parse_variable :: "Token \<Rightarrow> int option" where
  "parse_variable token =
     (let (tempnum, used) = strtol10 (drop 1 (lexeme token));
          endptr = 1 + used
      in if tok_length token \<noteq> endptr \<or> tempnum < 0 \<or> tempnum > 31 then None
         else Some tempnum)"

text \<open>The three digit loops of \<^verbatim>\<open>parse_imm\<close>, on the 64-bit unsigned \<^verbatim>\<open>value\<close>.\<close>

fun hex_loop :: "64 word \<Rightarrow> string \<Rightarrow> 64 word option" where
  "hex_loop v [] = Some v"
| "hex_loop v (c # cs) =
     (if 48 \<le> (of_char c :: nat) \<and> (of_char c :: nat) \<le> 57
      then hex_loop (v * 16 + of_nat (of_char c - 48)) cs
      else if 97 \<le> (of_char c :: nat) \<and> (of_char c :: nat) \<le> 102
      then hex_loop (v * 16 + of_nat (of_char c - 97 + 10)) cs
      else if 65 \<le> (of_char c :: nat) \<and> (of_char c :: nat) \<le> 70
      then hex_loop (v * 16 + of_nat (of_char c - 65 + 10)) cs
      else None)"

fun bin_loop :: "64 word \<Rightarrow> string \<Rightarrow> 64 word option" where
  "bin_loop v [] = Some v"
| "bin_loop v (c # cs) =
     (if c = CHR ''0'' \<or> c = CHR ''1''
      then bin_loop (v * 2 + of_nat (of_char c - 48)) cs
      else None)"

fun dec_loop :: "64 word \<Rightarrow> string \<Rightarrow> 64 word option" where
  "dec_loop v [] = Some v"
| "dec_loop v (c # cs) =
     (if 48 \<le> (of_char c :: nat) \<and> (of_char c :: nat) \<le> 57
      then dec_loop (v * 10 + of_nat (of_char c - 48)) cs
      else None)"

text \<open>The characters \<^verbatim>\<open>lexeme[i]\<close> for \<open>i\<close> from \<open>from\<close> up to the token's length.\<close>

definition token_chars :: "Token \<Rightarrow> nat \<Rightarrow> string" where
  "token_chars token from = map (char_at (lexeme token)) [from..<tok_length token]"

definition parse_imm :: "Parser \<Rightarrow> Operand option \<times> Parser" where
  "parse_imm parser =
     (let token = current parser
      in if tok_type token \<noteq> TOK_NUM then (None, parser)
         else
           (case
              (if tok_length token \<ge> 2 \<and> char_at (lexeme token) 0 = CHR ''0''
               then
                 (if char_at (lexeme token) 1 = CHR ''x'' \<or> char_at (lexeme token) 1 = CHR ''X''
                  then hex_loop 0 (token_chars token 2)
                  else if char_at (lexeme token) 1 = CHR ''b'' \<or> char_at (lexeme token) 1 = CHR ''B''
                  then bin_loop 0 (token_chars token 2)
                  else None)
               else dec_loop 0 (token_chars token 0))
            of None \<Rightarrow> (None, parser)
             | Some v \<Rightarrow> (Some (Num_val v), snd (advance parser))))"

definition parse_variable_operand :: "Parser \<Rightarrow> Operand option \<times> Parser" where
  "parse_variable_operand parser =
     (let token = current parser
      in if tok_type token \<noteq> TOK_IDENT \<or> \<not> is_variable token then (None, parser)
         else
           (case parse_variable token of
              None \<Rightarrow> (None, parser)
            | Some var_num \<Rightarrow> (Some (Base var_num), snd (advance parser))))"

text \<open>On success the result holds the operand and the flag \<^verbatim>\<open>*is_immediate\<close>.\<close>

definition parse_var_or_imm :: "Parser \<Rightarrow> (Operand \<times> bool) option \<times> Parser" where
  "parse_var_or_imm parser =
     (let token = current parser
      in if tok_type token = TOK_IDENT
         then
           (case parse_variable_operand parser of
              (None, p) \<Rightarrow> (None, p)
            | (Some op, p) \<Rightarrow> (Some (op, False), p))
         else if tok_type token = TOK_NUM
         then
           (case parse_imm parser of
              (None, p) \<Rightarrow> (None, p)
            | (Some op, p) \<Rightarrow> (Some (op, True), p))
         else (None, snd (advance parser)))"

text \<open>
  The number of tokens the parser can still advance over: it bounds every loop of the
  parser.
\<close>

definition tokens_left :: "Parser \<Rightarrow> nat" where
  "tokens_left parser =
     (if tok_type (current parser) = TOK_EOF then 0
      else 1 + (if tok_type (next_tok parser) = TOK_EOF then 0 else 1)
             + length (pending (lexer parser)))"

function skip_nls :: "Parser \<Rightarrow> Parser" where
  "skip_nls parser =
     (if fst (consume parser TOK_NL) then skip_nls (snd (consume parser TOK_NL))
      else snd (consume parser TOK_NL))"
  by pat_completeness auto
termination
  by (relation "measure tokens_left")
    (auto simp: tokens_left_def consume_def advance_def is_at_end_def lexer_next_token_def
      eof_token_def split: if_splits list.splits)

definition consume_newline :: "Parser \<Rightarrow> bool \<times> Parser" where
  "consume_newline parser =
     (if fst (consume parser TOK_NL) then (True, snd (consume parser TOK_NL))
      else consume (snd (consume parser TOK_NL)) TOK_EOF)"

definition diagnostic_of :: "Token \<Rightarrow> Diagnostic" where
  "diagnostic_of token =
     \<lparr>at_token =
        (if tok_type token = TOK_EOF then ''EOF''
         else take (tok_length token) (strdup (lexeme token))),
      token_type = tok_type token,
      token_length = tok_length token,
      at_line = line token,
      at_column = column token\<rparr>"

text \<open>
  The message and the command are arguments of \<^verbatim>\<open>print_error\<close>, but neither is
  printed; the message is kept as an argument, the command is not.
\<close>

definition print_error :: "Parser \<Rightarrow> string \<Rightarrow> Parser" where
  "print_error parser message =
     parser\<lparr>diagnostics := diagnostics parser @ [diagnostic_of (current parser)],
            had_error := True\<rparr>"

text \<open>
  The loop \<^verbatim>\<open>while (current.type != TOK_NL && current.type != TOK_EOF) advance(parser);\<close>
  of \<^verbatim>\<open>parse_cmd\<close> and \<^verbatim>\<open>parse_commands\<close>.
\<close>

function skip_line :: "Parser \<Rightarrow> Parser" where
  "skip_line parser =
     (if tok_type (current parser) \<noteq> TOK_NL \<and> tok_type (current parser) \<noteq> TOK_EOF
      then skip_line (snd (advance parser))
      else parser)"
  by pat_completeness auto
termination
  by (relation "measure tokens_left")
    (auto simp: tokens_left_def advance_def is_at_end_def lexer_next_token_def
      eof_token_def split: if_splits list.splits)

declare skip_nls.simps [simp del]
declare skip_line.simps [simp del]

text \<open>
  \<^verbatim>\<open>parse_cmd\<close> returns the command, or nothing (the null pointer) after an error or at
  the end of the input. \<^verbatim>\<open>calloc\<close> and \<^verbatim>\<open>strdup\<close> are taken to succeed, and a command that
  is freed is a command that is not returned.
\<close>

definition parse_cmd :: "Parser \<Rightarrow> Command option \<times> Parser" where
  "parse_cmd parser0 =
     (let parser = skip_nls parser0
      in if had_error parser then (None, parser)
         else if tok_type (current parser) = TOK_EOF then (None, parser)
         else
           (case tok_type (current parser) of
              TOK_ADD \<Rightarrow>
                (let p1 = snd (advance parser); cmd = create_command CMD_ADD
                 in case parse_variable_operand p1 of
                      (None, p2) \<Rightarrow>
                        (None, print_error p2 ''Invalid destination operand for ADD command.'')
                    | (Some d, p2) \<Rightarrow>
                        (case parse_var_or_imm p2 of
                           (None, p3) \<Rightarrow>
                             (None, print_error p3 ''Invalid first operand for ADD command.'')
                         | (Some (a, is_immediate_a), p3) \<Rightarrow>
                             (case parse_var_or_imm p3 of
                                (None, p4) \<Rightarrow>
                                  (None, print_error p4 ''Insufficient arguments for ADD command.'')
                              | (Some (b, is_immediate_b), p4) \<Rightarrow>
                                  (if tok_type (current p4) \<noteq> TOK_NL \<and>
                                      tok_type (current p4) \<noteq> TOK_EOF
                                   then (None,
                                         print_error p4 ''Unexpected token after ADD command.'')
                                   else (Some (cmd\<lparr>destination := d, val_a := a, val_b := b,
                                                   is_a_immediate := is_immediate_a,
                                                   is_b_immediate := is_immediate_b\<rparr>),
                                         snd (advance p4))))))
            | TOK_SUB \<Rightarrow>
                (let p1 = snd (advance parser); cmd = create_command CMD_SUB
                 in case parse_variable_operand p1 of
                      (None, p2) \<Rightarrow>
                        (None, print_error p2 ''Invalid destination operand for SUB command.'')
                    | (Some d, p2) \<Rightarrow>
                        (case parse_var_or_imm p2 of
                           (None, p3) \<Rightarrow>
                             (None, print_error p3 ''Invalid first operand for SUB command.'')
                         | (Some (a, is_immediate_a), p3) \<Rightarrow>
                             (case parse_var_or_imm p3 of
                                (None, p4) \<Rightarrow>
                                  (None, print_error p4 ''Invalid second operand for SUB command.'')
                              | (Some (b, is_immediate_b), p4) \<Rightarrow>
                                  (if tok_type (current p4) \<noteq> TOK_NL \<and>
                                      tok_type (current p4) \<noteq> TOK_EOF
                                   then (None,
                                         print_error p4 ''Unexpected token after SUB command.'')
                                   else (Some (cmd\<lparr>destination := d, val_a := a, val_b := b,
                                                   is_a_immediate := is_immediate_a,
                                                   is_b_immediate := is_immediate_b\<rparr>),
                                         snd (advance p4))))))
            | TOK_MOV \<Rightarrow>
                (let p1 = snd (advance parser); cmd = create_command CMD_MOV
                 in case parse_variable_operand p1 of
                      (None, p2) \<Rightarrow>
                        (None, print_error p2 ''Invalid destination operand for MOV command.'')
                    | (Some d, p2) \<Rightarrow>
                        (case parse_var_or_imm p2 of
                           (None, p3) \<Rightarrow>
                             (None, print_error p3 ''Invalid source operand for MOV command.'')
                         | (Some (a, is_immediate), p3) \<Rightarrow>
                             (if tok_type (current p3) \<noteq> TOK_NL \<and>
                                 tok_type (current p3) \<noteq> TOK_EOF
                              then (None, print_error p3 ''Unexpected token after MOV command.'')
                              else (Some (cmd\<lparr>destination := d, val_a := a,
                                              is_a_immediate := is_immediate\<rparr>),
                                    snd (advance p3)))))
            | TOK_CMP \<Rightarrow>
                (let p1 = snd (advance parser); cmd = create_command CMD_CMP
                 in case parse_var_or_imm p1 of
                      (None, p2) \<Rightarrow>
                        (None, print_error p2 ''Invalid first operand for CMP command.'')
                    | (Some (a, is_immediate_a), p2) \<Rightarrow>
                        (case parse_var_or_imm p2 of
                           (None, p3) \<Rightarrow>
                             (None, print_error p3 ''Invalid second operand for CMP command.'')
                         | (Some (b, is_immediate_b), p3) \<Rightarrow>
                             (if tok_type (current p3) \<noteq> TOK_NL \<and>
                                 tok_type (current p3) \<noteq> TOK_EOF
                              then (None, print_error p3 ''Unexpected token after CMP command.'')
                              else (Some (cmd\<lparr>val_a := a, val_b := b,
                                              is_a_immediate := is_immediate_a,
                                              is_b_immediate := is_immediate_b\<rparr>),
                                    snd (advance p3)))))
            | TOK_CMP_U \<Rightarrow>
                (let p1 = snd (advance parser); cmd = create_command CMD_CMP_U
                 in case parse_var_or_imm p1 of
                      (None, p2) \<Rightarrow>
                        (None, print_error p2 ''Invalid first operand for CMP_U command.'')
                    | (Some (a, is_immediate_a), p2) \<Rightarrow>
                        (case parse_var_or_imm p2 of
                           (None, p3) \<Rightarrow>
                             (None, print_error p3 ''Invalid second operand for CMP_U command.'')
                         | (Some (b, is_immediate_b), p3) \<Rightarrow>
                             (if tok_type (current p3) \<noteq> TOK_NL \<and>
                                 tok_type (current p3) \<noteq> TOK_EOF
                              then (None, print_error p3 ''Unexpected token after CMP_U command.'')
                              else (Some (cmd\<lparr>val_a := a, val_b := b,
                                              is_a_immediate := is_immediate_a,
                                              is_b_immediate := is_immediate_b\<rparr>),
                                    snd (advance p3)))))
            | TOK_PRINT \<Rightarrow>
                (let p1 = snd (advance parser); cmd = create_command CMD_PRINT
                 in if \<not> is_base (current p1)
                    then (None, print_error p1 ''Invalid base for PRINT command.'')
                    else
                      (let str_val = strdup (lexeme (current p1)); p2 = snd (advance p1)
                       in case parse_var_or_imm p2 of
                            (None, p3) \<Rightarrow>
                              (None, print_error p3 ''Invalid operand for PRINT command.'')
                          | (Some (b, is_immediate), p3) \<Rightarrow>
                              (if tok_type (current p3) \<noteq> TOK_NL \<and>
                                  tok_type (current p3) \<noteq> TOK_EOF
                               then (None,
                                     print_error p3 ''Unexpected token after PRINT command.'')
                               else (Some (cmd\<lparr>val_a := Str_val str_val, val_b := b,
                                               is_b_immediate := is_immediate\<rparr>),
                                     snd (advance p3)))))
            | _ \<Rightarrow> (None, skip_line (print_error parser ''Unrecognized command.''))))"

text \<open>
  The loop of \<^verbatim>\<open>parse_commands\<close>: \<open>cmds\<close> is the list from \<^verbatim>\<open>head\<close> to \<^verbatim>\<open>tail\<close>, and a new
  command is linked behind \<^verbatim>\<open>tail\<close>.
\<close>

definition parse_step :: "Parser \<Rightarrow> Command list \<Rightarrow> Parser \<times> Command list" where
  "parse_step parser cmds =
     (let (cmd, p1) = parse_cmd parser;
          cmds1 = (case cmd of None \<Rightarrow> cmds | Some c \<Rightarrow> cmds @ [c]);
          p2 = (if had_error p1 then (skip_line p1)\<lparr>had_error := False\<rparr> else p1)
      in (p2, cmds1))"

function parse_loop :: "Parser \<Rightarrow> Command list \<Rightarrow> Command list \<times> Parser" where
  "parse_loop parser cmds =
     (if \<not> is_at_end parser
      then parse_loop (fst (parse_step parser cmds)) (snd (parse_step parser cmds))
      else (cmds, parser))"
  by pat_completeness auto

definition parse_commands :: "Parser \<Rightarrow> Command list \<times> Parser" where
  "parse_commands parser = parse_loop parser []"

section \<open>Tokens of a source text\<close>

text \<open>
  Modelled from the spec: the lexer is not part of \<^verbatim>\<open>parser.c\<close>. A token of a source
  text is the slice that starts at offset \<open>pos\<close> and has \<open>n\<close> characters, with its kind
  and its 1-based line and column. Its \<open>lexeme\<close> points into the text, so it reads on
  to the end of the text. \<open>whole_token\<close> is the token whose text is the whole of \<open>s\<close>.
\<close>

definition token_at :: "string \<Rightarrow> TokenType \<Rightarrow> nat \<Rightarrow> nat \<Rightarrow> nat \<Rightarrow> nat \<Rightarrow> Token" where
  "token_at src ty pos n ln col =
     \<lparr>tok_type = ty, lexeme = drop pos src, tok_length = n, line = ln, column = col\<rparr>"

definition whole_token :: "TokenType \<Rightarrow> string \<Rightarrow> Token" where
  "whole_token ty s = token_at s ty 0 (length s) 1 1"

text \<open>
  Modelled from the spec: a token as the lexer cuts it is a slice of the source text,
  and the character behind it is not a decimal digit (a digit would belong to the
  token).
\<close>

definition lexed :: "Token \<Rightarrow> bool" where
  "lexed token =
     (tok_length token \<le> length (lexeme token) \<and>
      \<not> isdigit_c (char_at (lexeme token) (tok_length token)))"

text \<open>
  The lexer that still has the tokens \<open>ts\<close> to produce, before its sentinel at line
  \<open>l\<close> and column \<open>c\<close>, and a parser whose current token \<open>t\<close> is the only token of
  the input.
\<close>

definition token_stream :: "nat \<Rightarrow> nat \<Rightarrow> Token list \<Rightarrow> Lexer" where
  "token_stream l c ts = \<lparr>pending = ts, eof_line = l, eof_column = c\<rparr>"

definition parser_on :: "Token \<Rightarrow> Parser" where
  "parser_on t = parser_init (token_stream 1 1 [t])"

text \<open>
  The text of a token: the characters \<^verbatim>\<open>lexeme[0]\<close> to \<^verbatim>\<open>lexeme[length - 1]\<close>.
\<close>

definition token_text :: "Token \<Rightarrow> string" where
  "token_text token = token_chars token 0"

text \<open>The text \<^verbatim>\<open>"print x 0xFF\n"\<close> and its tokens.\<close>

definition print_src :: string where
  "print_src = ''print x 0xFF'' @ [CHR 0x0A]"

definition print_lexer :: Lexer where
  "print_lexer =
     token_stream 2 1
       [token_at print_src TOK_PRINT 0 5 1 1,
         token_at print_src TOK_IDENT 6 1 1 7,
         token_at print_src TOK_NUM 8 4 1 9,
         token_at print_src TOK_NL 12 1 1 13]"

text \<open>
  The text \<^verbatim>\<open>"add x1 x2\nmov x3 x1\n"\<close> and its tokens: an instruction that lacks its
  last operand, then a well-formed one on the next line.
\<close>

definition missing_src :: string where
  "missing_src = ''add x1 x2'' @ [CHR 0x0A] @ ''mov x3 x1'' @ [CHR 0x0A]"

definition missing_lexer :: Lexer where
  "missing_lexer =
     token_stream 3 1
       [token_at missing_src TOK_ADD 0 3 1 1,
         token_at missing_src TOK_IDENT 4 2 1 5,
         token_at missing_src TOK_IDENT 7 2 1 8,
         token_at missing_src TOK_NL 9 1 1 10,
         token_at missing_src TOK_MOV 10 3 2 1,
         token_at missing_src TOK_IDENT 14 2 2 5,
         token_at missing_src TOK_IDENT 17 2 2 8,
         token_at missing_src TOK_NL 19 1 2 10]"

text \<open>The text \<^verbatim>\<open>"add x1 x2 3\nbogus\nmov x3 x1\n"\<close> and its tokens.\<close>

definition bogus_src :: string where
  "bogus_src =
     ''add x1 x2 3'' @ [CHR 0x0A] @ ''bogus'' @ [CHR 0x0A] @ ''mov x3 x1'' @ [CHR 0x0A]"

definition bogus_lexer :: Lexer where
  "bogus_lexer =
     token_stream 4 1
       [token_at bogus_src TOK_ADD 0 3 1 1,
         token_at bogus_src TOK_IDENT 4 2 1 5,
         token_at bogus_src TOK_IDENT 7 2 1 8,
         token_at bogus_src TOK_NUM 10 1 1 11,
         token_at bogus_src TOK_NL 11 1 1 12,
         token_at bogus_src TOK_IDENT 12 5 2 1,
         token_at bogus_src TOK_NL 17 1 2 6,
         token_at bogus_src TOK_MOV 18 3 3 1,
         token_at bogus_src TOK_IDENT 22 2 3 5,
         token_at bogus_src TOK_IDENT 25 2 3 8,
         token_at bogus_src TOK_NL 27 1 3 10]"

text \<open>The text \<^verbatim>\<open>"add x1 x2 5"\<close>, which ends without a newline.\<close>

definition add_src :: string where
  "add_src = ''add x1 x2 5''"

text \<open>
  The text \<^verbatim>\<open>"mov x1 09\n"\<close> and its tokens: a MOV whose source operand is a decimal
  literal with a leading zero.
\<close>

definition leading_zero_src :: string where
  "leading_zero_src = ''mov x1 09'' @ [CHR 0x0A]"

definition leading_zero_lexer :: Lexer where
  "leading_zero_lexer =
     token_stream 2 1
       [token_at leading_zero_src TOK_MOV 0 3 1 1,
        token_at leading_zero_src TOK_IDENT 4 2 1 5,
        token_at leading_zero_src TOK_NUM 7 2 1 8,
        token_at leading_zero_src TOK_NL 9 1 1 10]"

section \<open>The grammar of the specification\<close>

text \<open>
  The definitions of this section follow the words of the specification, not the code;
  the theorems below compare the parser with them.

  A numeric literal: \<^verbatim>\<open>0x\<close> or \<^verbatim>\<open>0X\<close> and hexadecimal digits, \<^verbatim>\<open>0b\<close> or \<^verbatim>\<open>0B\<close> and
  binary digits, or decimal digits in a text that has fewer than two characters or does
  not begin with \<^verbatim>\<open>0\<close>. Its value is the number that the digits denote in that base.
\<close>

definition hex_digit_c :: "char \<Rightarrow> bool" where
  "hex_digit_c c =
     (isdigit_c c \<or> (97 \<le> (of_char c :: nat) \<and> (of_char c :: nat) \<le> 102) \<or>
      (65 \<le> (of_char c :: nat) \<and> (of_char c :: nat) \<le> 70))"

definition bin_digit_c :: "char \<Rightarrow> bool" where
  "bin_digit_c c = (c = CHR ''0'' \<or> c = CHR ''1'')"

definition digit_value :: "char \<Rightarrow> nat" where
  "digit_value c =
     (if isdigit_c c then of_char c - 48
      else if 97 \<le> (of_char c :: nat) then of_char c - 87
      else of_char c - 55)"

definition numeral_value :: "nat \<Rightarrow> string \<Rightarrow> nat" where
  "numeral_value b ds = foldl (\<lambda>acc c. acc * b + digit_value c) 0 ds"

definition literal_value :: "string \<Rightarrow> nat option" where
  "literal_value s =
     (case s of
        c0 # c1 # ds \<Rightarrow>
          if c0 = CHR ''0''
          then
            (if c1 = CHR ''x'' \<or> c1 = CHR ''X''
             then (if list_all hex_digit_c ds then Some (numeral_value 16 ds) else None)
             else if c1 = CHR ''b'' \<or> c1 = CHR ''B''
             then (if list_all bin_digit_c ds then Some (numeral_value 2 ds) else None)
             else None)
          else (if list_all isdigit_c s then Some (numeral_value 10 s) else None)
      | _ \<Rightarrow> (if list_all isdigit_c s then Some (numeral_value 10 s) else None))"

text \<open>
  Reading a text in full as a base-10 integer, the way \<^verbatim>\<open>strtol\<close> reads: white space, an
  optional sign, then one or more decimal digits and nothing else.
\<close>

definition int_text :: "string \<Rightarrow> int option" where
  "int_text s =
     (let r = dropWhile isspace_c s;
          sign = (if r \<noteq> [] \<and> (hd r = CHR ''-'' \<or> hd r = CHR ''+'') then 1 else 0);
          ds = drop sign r
      in if ds \<noteq> [] \<and> list_all isdigit_c ds
         then Some (if hd r = CHR ''-'' then - int (decimal 0 ds) else int (decimal 0 ds))
         else None)"

text \<open>
  The register that a token names: its text is \<^verbatim>\<open>x\<close> followed by one or more characters
  that read in full as an integer from 0 to 31.
\<close>

definition register_number :: "Token \<Rightarrow> int option" where
  "register_number token =
     (case token_text token of
        [] \<Rightarrow> None
      | c # rest \<Rightarrow>
          if c = CHR ''x'' \<and> rest \<noteq> []
          then (case int_text rest of
                  None \<Rightarrow> None
                | Some n \<Rightarrow> if 0 \<le> n \<and> n \<le> 31 then Some n else None)
          else None)"

text \<open>
  The operands of the grammar table. A register operand is an identifier token that
  names a register; a register-or-immediate operand is such a token or a numeric token
  whose text is a literal; a base signifier is an identifier token whose text is one of
  \<^verbatim>\<open>d\<close>, \<^verbatim>\<open>x\<close>, \<^verbatim>\<open>b\<close> and \<^verbatim>\<open>s\<close>.
\<close>

definition register_operand :: "Token \<Rightarrow> int option" where
  "register_operand token =
     (if tok_type token = TOK_IDENT \<and> lexed token then register_number token else None)"

definition source_operand :: "Token \<Rightarrow> Operand option" where
  "source_operand token =
     (if tok_type token = TOK_NUM
      then map_option (\<lambda>n. Num_val (of_nat n)) (literal_value (token_text token))
      else map_option Base (register_operand token))"

definition base_signifier :: "Token \<Rightarrow> bool" where
  "base_signifier token =
     (tok_type token = TOK_IDENT \<and>
      (token_text token = ''d'' \<or> token_text token = ''x'' \<or>
       token_text token = ''b'' \<or> token_text token = ''s''))"

text \<open>An instruction ends at a newline or at the end of the input.\<close>

definition line_end :: "Token list \<Rightarrow> bool" where
  "line_end ts = (case ts of [] \<Rightarrow> True | [t] \<Rightarrow> tok_type t = TOK_NL | _ \<Rightarrow> False)"

text \<open>
  The token sequences of the grammar table, without the terminator: ADD and SUB with a
  destination register and two register-or-immediate operands, MOV with a destination
  register and one source operand, CMP and CMP_U with two register-or-immediate
  operands, PRINT with a base signifier and one register-or-immediate operand.
\<close>

definition instruction_tokens :: "Token list \<Rightarrow> bool" where
  "instruction_tokens ts =
     (case ts of
        [k, x, y, z] \<Rightarrow>
          (tok_type k = TOK_ADD \<or> tok_type k = TOK_SUB) \<and> register_operand x \<noteq> None \<and>
          source_operand y \<noteq> None \<and> source_operand z \<noteq> None
      | [k, x, y] \<Rightarrow>
          (tok_type k = TOK_MOV \<and> register_operand x \<noteq> None \<and> source_operand y \<noteq> None) \<or>
          ((tok_type k = TOK_CMP \<or> tok_type k = TOK_CMP_U) \<and> source_operand x \<noteq> None \<and>
           source_operand y \<noteq> None) \<or>
          (tok_type k = TOK_PRINT \<and> base_signifier x \<and> source_operand y \<noteq> None)
      | _ \<Rightarrow> False)"

text \<open>
  What holds of every command that the parser returns: an operand that holds a register
  index holds one from 0 to 31, no string flag is set, and a PRINT command holds a
  string in operand A.
\<close>

definition register_ok :: "Operand \<Rightarrow> bool" where
  "register_ok op = (case op of Base n \<Rightarrow> 0 \<le> n \<and> n \<le> 31 | _ \<Rightarrow> True)"

definition command_ok :: "Command \<Rightarrow> bool" where
  "command_ok c =
     (register_ok (destination c) \<and> register_ok (val_a c) \<and> register_ok (val_b c) \<and>
      \<not> is_a_string c \<and> \<not> is_b_string c \<and>
      (cmd_type c = CMD_PRINT \<longrightarrow> (\<exists>s. val_a c = Str_val s)))"

section \<open>Every loop of the parser ends\<close>

lemma tokens_left_advance: "tokens_left (snd (advance p)) \<le> tokens_left p"
  by (auto simp: tokens_left_def advance_def is_at_end_def lexer_next_token_def
      eof_token_def split: if_splits list.splits)

lemma tokens_left_advance_less:
  "tok_type (current p) \<noteq> TOK_EOF \<Longrightarrow> tokens_left (snd (advance p)) < tokens_left p"
  by (auto simp: tokens_left_def advance_def is_at_end_def lexer_next_token_def
      eof_token_def split: if_splits list.splits)

lemma tokens_left_print_error [simp]: "tokens_left (print_error p m) = tokens_left p"
  by (simp add: tokens_left_def print_error_def)

lemma tokens_left_had_error [simp]: "tokens_left (p\<lparr>had_error := b\<rparr>) = tokens_left p"
  by (simp add: tokens_left_def)

lemma tokens_left_skip_nls: "tokens_left (skip_nls p) \<le> tokens_left p"
proof (induction p rule: skip_nls.induct)
  case (1 p)
  show ?case
  proof (cases "fst (consume p TOK_NL)")
    case True
    then have "tokens_left (skip_nls (snd (consume p TOK_NL))) \<le> tokens_left (snd (consume p TOK_NL))"
      using 1 by simp
    moreover have "tokens_left (snd (consume p TOK_NL)) \<le> tokens_left p"
      using tokens_left_advance [of p] by (simp add: consume_def)
    ultimately show ?thesis using True by (subst skip_nls.simps) simp
  next
    case False
    then show ?thesis by (subst skip_nls.simps) (simp add: consume_def split: if_splits)
  qed
qed

lemma skip_nls_no_nl: "tok_type (current p) \<noteq> TOK_NL \<Longrightarrow> skip_nls p = p"
  by (subst skip_nls.simps) (simp add: consume_def)

lemma skip_nls_less:
  "tok_type (current p) = TOK_NL \<Longrightarrow> tokens_left (skip_nls p) < tokens_left p"
proof -
  assume nl: "tok_type (current p) = TOK_NL"
  have "skip_nls p = skip_nls (snd (advance p))"
    using nl by (subst skip_nls.simps) (simp add: consume_def)
  moreover have "tokens_left (snd (advance p)) < tokens_left p"
    using nl by (simp add: tokens_left_advance_less)
  ultimately show ?thesis
    using tokens_left_skip_nls [of "snd (advance p)"] by simp
qed

lemma tokens_left_skip_line: "tokens_left (skip_line p) \<le> tokens_left p"
proof (induction p rule: skip_line.induct)
  case (1 p)
  show ?case
  proof (cases "tok_type (current p) \<noteq> TOK_NL \<and> tok_type (current p) \<noteq> TOK_EOF")
    case True
    then have "tokens_left (skip_line (snd (advance p))) \<le> tokens_left (snd (advance p))"
      using 1 by simp
    then show ?thesis
      using True tokens_left_advance [of p] by (subst skip_line.simps) simp
  next
    case False
    then show ?thesis by (subst skip_line.simps) auto
  qed
qed

lemma skip_line_less:
  "tok_type (current p) \<noteq> TOK_NL \<Longrightarrow> tok_type (current p) \<noteq> TOK_EOF \<Longrightarrow>
   tokens_left (skip_line p) < tokens_left p"
  using tokens_left_skip_line [of "snd (advance p)"] tokens_left_advance_less [of p]
  by (subst skip_line.simps) simp

lemma tokens_left_parse_variable_operand:
  "parse_variable_operand p = (r, p') \<Longrightarrow> tokens_left p' \<le> tokens_left p"
  using tokens_left_advance [of p]
  by (auto simp: parse_variable_operand_def Let_def split: if_splits option.splits)

lemma tokens_left_parse_imm:
  "parse_imm p = (r, p') \<Longrightarrow> tokens_left p' \<le> tokens_left p"
  using tokens_left_advance [of p]
  by (auto simp: parse_imm_def Let_def split: if_splits option.splits)

lemma tokens_left_parse_var_or_imm:
  "parse_var_or_imm p = (r, p') \<Longrightarrow> tokens_left p' \<le> tokens_left p"
  using tokens_left_advance [of p]
  by (auto simp: parse_var_or_imm_def Let_def split: if_splits option.splits prod.splits
      dest: tokens_left_parse_imm tokens_left_parse_variable_operand)

lemma tokens_left_advance_trans:
  "tokens_left p \<le> n \<Longrightarrow> tokens_left (snd (advance p)) \<le> n"
  using tokens_left_advance [of p] by simp

lemma parse_cmd_body_less:
  assumes "tok_type (current q) \<noteq> TOK_EOF" "tok_type (current q) \<noteq> TOK_NL" "\<not> had_error q"
  shows "tokens_left (snd (parse_cmd q)) < tokens_left q"
proof -
  have adv: "tokens_left (snd (advance q)) < tokens_left q"
    using assms by (simp add: tokens_left_advance_less)
  have sl: "tokens_left (skip_line (print_error q m)) < tokens_left q" for m
    using skip_line_less [of "print_error q m"] assms by (simp add: print_error_def tokens_left_def)
  have adv2: "tokens_left (snd (advance (snd (advance q)))) < tokens_left q"
    using adv tokens_left_advance [of "snd (advance q)"] by simp
  show ?thesis
    using assms adv adv2
    by (cases "tok_type (current q)")
      (auto simp: parse_cmd_def skip_nls_no_nl Let_def sl
        split: prod.splits option.splits
        dest!: tokens_left_parse_var_or_imm tokens_left_parse_variable_operand
        intro!: tokens_left_advance_trans [THEN order.strict_trans1])
qed

lemma skip_nls_current: "tok_type (current (skip_nls p)) \<noteq> TOK_NL"
proof (induction p rule: skip_nls.induct)
  case (1 p)
  show ?case
  proof (cases "fst (consume p TOK_NL)")
    case True
    then show ?thesis using 1 by (subst skip_nls.simps) simp
  next
    case False
    then show ?thesis by (subst skip_nls.simps) (simp add: consume_def split: if_splits)
  qed
qed

lemma advance_had_error [simp]: "had_error (snd (advance p)) = had_error p"
  by (simp add: advance_def Let_def)

lemma advance_diagnostics [simp]: "diagnostics (snd (advance p)) = diagnostics p"
  by (simp add: advance_def Let_def)

lemma skip_nls_had_error [simp]: "had_error (skip_nls p) = had_error p"
proof (induction p rule: skip_nls.induct)
  case (1 p)
  show ?case
  proof (cases "fst (consume p TOK_NL)")
    case True
    then have "had_error (skip_nls (snd (consume p TOK_NL))) = had_error (snd (consume p TOK_NL))"
      using 1 by simp
    then show ?thesis using True by (subst skip_nls.simps) (simp add: consume_def split: if_splits)
  next
    case False
    then show ?thesis by (subst skip_nls.simps) (simp add: consume_def split: if_splits)
  qed
qed

lemma skip_nls_idem: "skip_nls (skip_nls p) = skip_nls p"
  by (simp add: skip_nls_no_nl skip_nls_current)

lemma parse_cmd_skip_nls: "parse_cmd (skip_nls p) = parse_cmd p"
  by (simp add: parse_cmd_def skip_nls_idem)

lemma parse_cmd_stop:
  "had_error (skip_nls p) \<or> tok_type (current (skip_nls p)) = TOK_EOF \<Longrightarrow>
   parse_cmd p = (None, skip_nls p)"
  unfolding parse_cmd_def Let_def by auto

lemma tokens_left_parse_cmd: "tokens_left (snd (parse_cmd p)) \<le> tokens_left p"
proof -
  let ?q = "skip_nls p"
  have q: "tokens_left ?q \<le> tokens_left p" by (rule tokens_left_skip_nls)
  have nl: "tok_type (current ?q) \<noteq> TOK_NL" by (rule skip_nls_current)
  show ?thesis
  proof (cases "had_error ?q \<or> tok_type (current ?q) = TOK_EOF")
    case True
    then have "parse_cmd p = (None, ?q)" by (rule parse_cmd_stop)
    then show ?thesis using q by simp
  next
    case False
    then have "tokens_left (snd (parse_cmd ?q)) < tokens_left ?q"
      using nl by (simp add: parse_cmd_body_less)
    then show ?thesis using q by (simp add: parse_cmd_skip_nls)
  qed
qed

lemma parse_step_less:
  assumes "\<not> is_at_end p"
  shows "tokens_left (fst (parse_step p cmds)) < tokens_left p"
proof -
  let ?q = "skip_nls p"
  let ?p1 = "snd (parse_cmd p)"
  have q: "tokens_left ?q \<le> tokens_left p" by (rule tokens_left_skip_nls)
  have nl: "tok_type (current ?q) \<noteq> TOK_NL" by (rule skip_nls_current)
  have fin: "tokens_left (fst (parse_step p cmds)) \<le> tokens_left ?p1"
    using tokens_left_skip_line [of ?p1]
    by (cases "parse_cmd p") (simp add: parse_step_def Let_def)
  show ?thesis
  proof (cases "tok_type (current ?q) = TOK_EOF")
    case True
    have "tok_type (current p) = TOK_NL"
    proof (rule ccontr)
      assume "tok_type (current p) \<noteq> TOK_NL"
      then have "skip_nls p = p" by (rule skip_nls_no_nl)
      then show False using True assms by (simp add: is_at_end_def)
    qed
    then have "tokens_left ?q < tokens_left p" by (rule skip_nls_less)
    moreover have "parse_cmd p = (None, ?q)" using True by (simp add: parse_cmd_stop)
    ultimately show ?thesis using fin by simp
  next
    case notend: False
    show ?thesis
    proof (cases "had_error ?q")
      case True
      then have pc: "parse_cmd p = (None, ?q)" by (simp add: parse_cmd_stop)
      have "tokens_left (skip_line ?q) < tokens_left ?q"
        using nl notend by (rule skip_line_less)
      then show ?thesis using q True pc by (simp add: parse_step_def)
    next
      case False
      then have "tokens_left (snd (parse_cmd ?q)) < tokens_left ?q"
        using nl notend by (simp add: parse_cmd_body_less)
      then show ?thesis using q fin by (simp add: parse_cmd_skip_nls)
    qed
  qed
qed

termination parse_loop
  by (relation "measure (\<lambda>(p, cmds). tokens_left p)") (use parse_step_less in \<open>auto simp: fst_def split: prod.splits\<close>)

declare parse_loop.simps [simp del]

section \<open>Immediates\<close>

lemma hex_loop_value:
  "hex_loop (of_nat acc) cs =
     (if list_all hex_digit_c cs
      then Some (of_nat (foldl (\<lambda>acc c. acc * 16 + digit_value c) acc cs)) else None)"
proof (induction cs arbitrary: acc)
  case Nil
  show ?case by simp
next
  case (Cons c cs)
  show ?case
    using Cons.IH [of "acc * 16 + digit_value c"]
    by (auto simp: hex_digit_c_def isdigit_c_def digit_value_def)
qed

lemma bin_loop_value:
  "bin_loop (of_nat acc) cs =
     (if list_all bin_digit_c cs
      then Some (of_nat (foldl (\<lambda>acc c. acc * 2 + digit_value c) acc cs)) else None)"
proof (induction cs arbitrary: acc)
  case Nil
  show ?case by simp
next
  case (Cons c cs)
  show ?case
    using Cons.IH [of "acc * 2 + digit_value c"]
    by (auto simp: bin_digit_c_def isdigit_c_def digit_value_def)
qed

lemma dec_loop_value:
  "dec_loop (of_nat acc) cs =
     (if list_all isdigit_c cs
      then Some (of_nat (foldl (\<lambda>acc c. acc * 10 + digit_value c) acc cs)) else None)"
proof (induction cs arbitrary: acc)
  case Nil
  show ?case by simp
next
  case (Cons c cs)
  show ?case
    using Cons.IH [of "acc * 10 + digit_value c"]
    by (auto simp: isdigit_c_def digit_value_def)
qed

lemma token_chars_Cons:
  "i < tok_length t \<Longrightarrow> token_chars t i = char_at (lexeme t) i # token_chars t (Suc i)"
  by (simp add: token_chars_def upt_conv_Cons)

lemma token_chars_Nil: "tok_length t \<le> i \<Longrightarrow> token_chars t i = []"
  by (simp add: token_chars_def)

lemma length_token_chars [simp]: "length (token_chars t i) = tok_length t - i"
  by (simp add: token_chars_def)

lemma literal_value_decimal:
  "length s < 2 \<or> hd s \<noteq> CHR ''0'' \<Longrightarrow>
   literal_value s =
     (if list_all isdigit_c s then Some (numeral_value 10 s) else None)"
  by (cases s; cases "tl s") (auto simp: literal_value_def)

lemma parse_imm_literal:
  assumes "tok_type (current p) = TOK_NUM"
  shows "parse_imm p =
     (case literal_value (token_text (current p)) of
        None \<Rightarrow> (None, p)
      | Some n \<Rightarrow> (Some (Num_val (of_nat n)), snd (advance p)))"
proof (cases "2 \<le> tok_length (current p) \<and> char_at (lexeme (current p)) 0 = CHR ''0''")
  case True
  let ?t = "current p"
  have text_eq: "token_text ?t = CHR ''0'' # char_at (lexeme ?t) 1 # token_chars ?t 2"
    using True by (simp add: token_text_def token_chars_Cons numeral_2_eq_2)
  show ?thesis
    using assms True hex_loop_value [of 0] bin_loop_value [of 0]
    by (simp add: parse_imm_def Let_def text_eq literal_value_def numeral_value_def)
next
  case False
  let ?t = "current p"
  have "length (token_text ?t) < 2 \<or> hd (token_text ?t) \<noteq> CHR ''0''"
  proof (cases "tok_length ?t = 0")
    case True
    then show ?thesis by (simp add: token_text_def)
  next
    case nonempty: False
    then have "hd (token_text ?t) = char_at (lexeme ?t) 0"
      by (simp add: token_text_def token_chars_Cons)
    then show ?thesis using False by (auto simp: token_text_def)
  qed
  then have lit: "literal_value (token_text ?t) =
      (if list_all isdigit_c (token_text ?t) then Some (numeral_value 10 (token_text ?t)) else None)"
    by (rule literal_value_decimal)
  have "parse_imm p =
      (case dec_loop 0 (token_text ?t) of
         None \<Rightarrow> (None, p)
       | Some v \<Rightarrow> (Some (Num_val v), snd (advance p)))"
    using assms False by (auto simp: parse_imm_def Let_def token_text_def)
  then show ?thesis
    using dec_loop_value [of 0 "token_text ?t"] by (simp add: lit numeral_value_def)
qed

section \<open>Registers\<close>

lemma strtol10_whole:
  assumes R: "R \<noteq> []" and A: "takeWhile isdigit_c A = []"
  shows "(case int_text R of
            Some v \<Rightarrow> strtol10 (R @ A) = (clamp_long v, length R)
          | None \<Rightarrow> snd (strtol10 (R @ A)) \<noteq> length R)"
proof (cases "\<forall>x\<in>set R. isspace_c x")
  case True
  then have tw: "takeWhile isspace_c (R @ A) = R @ takeWhile isspace_c A"
    by simp
  have none: "int_text R = None"
    using True by (simp add: int_text_def)
  have "snd (strtol10 (R @ A)) \<noteq> length R"
    using R by (auto simp: strtol10_def Let_def tw)
  then show ?thesis using none by simp
next
  case False
  then obtain x where x: "x \<in> set R" "\<not> isspace_c x" by blast
  define r0 where "r0 = dropWhile isspace_c R"
  define sg :: nat where
    "sg = (if r0 \<noteq> [] \<and> (hd r0 = CHR ''-'' \<or> hd r0 = CHR ''+'') then 1 else 0)"
  define ds0 where "ds0 = drop sg r0"
  define val :: "string \<Rightarrow> int" where
    "val = (\<lambda>ds. if hd r0 = CHR ''-'' then - int (decimal 0 ds) else int (decimal 0 ds))"
  define ws where "ws = takeWhile isspace_c R"
  have tw: "takeWhile isspace_c (R @ A) = ws"
    using x by (simp add: takeWhile_append1 ws_def)
  have dw: "dropWhile isspace_c (R @ A) = r0 @ A"
    using x by (simp add: dropWhile_append1 r0_def)
  have r0: "r0 \<noteq> []" using x by (auto simp: dropWhile_eq_Nil_conv r0_def)
  have sign_le: "sg \<le> length r0"
    using r0 by (cases r0) (auto simp: sg_def)
  have s1: "(if r0 @ A \<noteq> [] \<and> (hd (r0 @ A) = CHR ''-'' \<or> hd (r0 @ A) = CHR ''+'') then 1 else 0) = sg"
    using r0 by (simp add: sg_def)
  have s2: "drop sg (r0 @ A) = ds0 @ A"
    using sign_le by (simp add: ds0_def)
  have s3: "(if r0 @ A \<noteq> [] \<and> hd (r0 @ A) = CHR ''-'' then - int (decimal 0 ds) else int (decimal 0 ds)) = val ds" for ds
    using r0 by (simp add: val_def)
  have len: "length ws + sg + length ds0 = length R"
  proof -
    have "length ws + length r0 = length R"
      unfolding ws_def r0_def by (metis length_append takeWhile_dropWhile_id)
    then show ?thesis using sign_le by (simp add: ds0_def)
  qed
  have st: "strtol10 (R @ A) =
      (if takeWhile isdigit_c (ds0 @ A) = [] then (0, 0)
       else (clamp_long (val (takeWhile isdigit_c (ds0 @ A))),
             length ws + sg + length (takeWhile isdigit_c (ds0 @ A))))"
    unfolding strtol10_def Let_def tw dw s1 s2 s3 ..
  have it: "int_text R = (if ds0 \<noteq> [] \<and> list_all isdigit_c ds0 then Some (val ds0) else None)"
    unfolding int_text_def Let_def r0_def [symmetric] sg_def [symmetric] ds0_def [symmetric]
      val_def ..
  show ?thesis
  proof (cases "ds0 \<noteq> [] \<and> list_all isdigit_c ds0")
    case True
    then have ds: "takeWhile isdigit_c (ds0 @ A) = ds0"
      using A by (simp add: list_all_iff)
    show ?thesis
      using True len by (simp add: st ds it)
  next
    case False
    then have none: "int_text R = None"
      by (simp add: it)
    have "snd (strtol10 (R @ A)) \<noteq> length R"
    proof (cases "ds0 = []")
      case True
      then show ?thesis using A R by (simp add: st)
    next
      case nonempty: False
      then have "\<exists>y\<in>set ds0. \<not> isdigit_c y"
        using False by (simp add: list_all_iff)
      then obtain y where y: "y \<in> set ds0" "\<not> isdigit_c y" by blast
      then have ds: "takeWhile isdigit_c (ds0 @ A) = takeWhile isdigit_c ds0"
        by (simp add: takeWhile_append1)
      have "takeWhile isdigit_c ds0 \<noteq> ds0"
        using y by (auto simp: takeWhile_eq_all_conv)
      moreover have "length (takeWhile isdigit_c ds0) \<le> length ds0"
        by (rule length_takeWhile_le)
      moreover have "length (takeWhile isdigit_c ds0) = length ds0 \<Longrightarrow>
          takeWhile isdigit_c ds0 = ds0"
        by (metis append_eq_conv_conj take_all_iff order_refl takeWhile_dropWhile_id)
      ultimately have "length (takeWhile isdigit_c ds0) < length ds0"
        by linarith
      then show ?thesis using len R by (simp add: st ds)
    qed
    then show ?thesis using none by simp
  qed
qed

lemma token_text_take:
  "tok_length t \<le> length (lexeme t) \<Longrightarrow> token_text t = take (tok_length t) (lexeme t)"
  by (rule nth_equalityI) (simp_all add: token_text_def token_chars_def char_at_def)

lemma clamp_long_range:
  "(clamp_long v < 0 \<or> clamp_long v > 31) = (v < 0 \<or> v > 31)"
  "0 \<le> v \<Longrightarrow> v \<le> 31 \<Longrightarrow> clamp_long v = v"
  by (auto simp: clamp_long_def)

lemma parse_variable_register:
  assumes lexed: "lexed t" and var: "is_variable t"
  shows "parse_variable t = register_number t"
proof -
  let ?n = "tok_length t"
  have n: "2 \<le> ?n" "?n \<le> length (lexeme t)" and x: "char_at (lexeme t) 0 = CHR ''x''"
    and nd: "\<not> isdigit_c (char_at (lexeme t) ?n)"
    using lexed var by (auto simp: lexed_def is_variable_def)
  then obtain L where L: "lexeme t = CHR ''x'' # L"
    by (cases "lexeme t") (auto simp: char_at_def)
  define R where "R = take (?n - 1) L"
  define A where "A = drop (?n - 1) L"
  have RA: "drop (Suc 0) (lexeme t) = R @ A" by (simp add: L R_def A_def)
  have lenR: "length R = ?n - 1" using n by (simp add: R_def L)
  have R: "R \<noteq> []" using lenR n by auto
  have A: "takeWhile isdigit_c A = []"
  proof (cases A)
    case Nil
    then show ?thesis by simp
  next
    case (Cons a as)
    then have "?n - 1 < length L"
      unfolding A_def by (metis drop_all list.distinct(1) not_le_imp_less)
    moreover from this have "a = L ! (?n - 1)"
      using Cons by (metis A_def hd_drop_conv_nth list.sel(1))
    ultimately have "char_at (lexeme t) ?n = a"
      using n by (auto simp: char_at_def L nth_Cons')
    then show ?thesis using nd Cons by simp
  qed
  have text_eq: "token_text t = CHR ''x'' # R"
    using n by (simp add: token_text_take L R_def take_Cons')
  have reg: "register_number t =
      (case int_text R of None \<Rightarrow> None
       | Some v \<Rightarrow> if 0 \<le> v \<and> v \<le> 31 then Some v else None)"
    using R by (simp add: register_number_def text_eq)
  show ?thesis
  proof (cases "int_text R")
    case None
    then have "snd (strtol10 (R @ A)) \<noteq> length R"
      using strtol10_whole [OF R A] by simp
    then show ?thesis
      using n lenR None
      by (auto simp: parse_variable_def RA reg Let_def split: prod.splits)
  next
    case (Some v)
    then have "strtol10 (R @ A) = (clamp_long v, length R)"
      using strtol10_whole [OF R A] by simp
    then show ?thesis
      using n lenR Some
      by (auto simp: parse_variable_def RA reg Let_def clamp_long_range)
  qed
qed

lemma register_number_not_variable:
  assumes "tok_length t \<le> length (lexeme t)" and "\<not> is_variable t"
  shows "register_number t = None"
proof (cases "token_text t")
  case Nil
  then show ?thesis by (simp add: register_number_def)
next
  case (Cons c rest)
  have len: "length (token_text t) = tok_length t" by (simp add: token_text_def)
  then have pos: "0 < tok_length t" using Cons by auto
  then have c: "c = char_at (lexeme t) 0"
    using Cons by (simp add: token_text_def token_chars_Cons)
  have "rest \<noteq> [] \<Longrightarrow> 2 \<le> tok_length t" using len Cons by (cases rest) auto
  then show ?thesis
    using assms Cons c by (auto simp: register_number_def is_variable_def)
qed

lemma parse_variable_operand_register:
  assumes "tok_type (current p) = TOK_IDENT" and "lexed (current p)"
  shows "parse_variable_operand p =
     (case register_number (current p) of
        None \<Rightarrow> (None, p)
      | Some n \<Rightarrow> (Some (Base n), snd (advance p)))"
proof (cases "is_variable (current p)")
  case True
  then show ?thesis
    using assms by (simp add: parse_variable_operand_def Let_def parse_variable_register)
next
  case False
  then have "register_number (current p) = None"
    using assms by (simp add: register_number_not_variable lexed_def)
  then show ?thesis
    using False by (simp add: parse_variable_operand_def Let_def)
qed

section \<open>The commands that are returned\<close>

lemma parse_variable_range:
  "parse_variable t = Some n \<Longrightarrow> 0 \<le> n \<and> n \<le> 31"
  by (auto simp: parse_variable_def Let_def split: prod.splits if_splits)

lemma parse_variable_operand_Some:
  "parse_variable_operand p = (Some op, p') \<Longrightarrow> \<exists>n. op = Base n \<and> 0 \<le> n \<and> n \<le> 31"
  by (auto simp: parse_variable_operand_def Let_def split: if_splits option.splits
      dest: parse_variable_range)

lemma parse_imm_Some:
  "parse_imm p = (Some op, p') \<Longrightarrow> \<exists>v. op = Num_val v"
  by (auto simp: parse_imm_def Let_def split: if_splits option.splits)

lemma parse_var_or_imm_Some:
  "parse_var_or_imm p = (Some (op, imm), p') \<Longrightarrow>
   (imm \<longrightarrow> (\<exists>v. op = Num_val v)) \<and> (\<not> imm \<longrightarrow> (\<exists>n. op = Base n \<and> 0 \<le> n \<and> n \<le> 31))"
  by (auto simp: parse_var_or_imm_def Let_def split: if_splits option.splits prod.splits
      dest: parse_variable_operand_Some parse_imm_Some)

lemma parse_cmd_command_ok:
  assumes "parse_cmd p = (Some c, p')"
  shows "command_ok c"
proof -
  let ?q = "skip_nls p"
  have go: "\<not> had_error ?q" "tok_type (current ?q) \<noteq> TOK_EOF"
    using assms parse_cmd_stop [of p] by auto
  show ?thesis
    using assms go
    by (cases "tok_type (current ?q)")
      (auto simp: parse_cmd_def Let_def command_ok_def register_ok_def create_command_def
        split: prod.splits option.splits if_splits
        dest!: parse_var_or_imm_Some parse_variable_operand_Some)
qed

lemma parse_loop_invariant:
  assumes "\<forall>c\<in>set cmds. P c" and "\<And>q c q'. parse_cmd q = (Some c, q') \<Longrightarrow> P c"
  shows "\<forall>c\<in>set (fst (parse_loop p cmds)). P c"
  using assms(1)
proof (induction p cmds rule: parse_loop.induct)
  case (1 parser cmds)
  show ?case
  proof (cases "is_at_end parser")
    case True
    then show ?thesis using 1 by (subst parse_loop.simps) simp
  next
    case False
    have "\<forall>c\<in>set (snd (parse_step parser cmds)). P c"
      using "1.prems" assms(2) [of parser]
      by (cases "parse_cmd parser")
        (auto simp: parse_step_def Let_def split: option.splits)
    then have "\<forall>c\<in>set (fst (parse_loop (fst (parse_step parser cmds)) (snd (parse_step parser cmds)))). P c"
      using False "1.IH" by simp
    then show ?thesis using False by (subst parse_loop.simps) simp
  qed
qed

lemma parse_commands_command_ok:
  "\<forall>c\<in>set (fst (parse_commands p)). command_ok c"
  unfolding parse_commands_def
  by (rule parse_loop_invariant) (auto dest: parse_cmd_command_ok)

section \<open>Well-formed instructions\<close>

lemma token_text_Cons:
  assumes "token_text t = c # rest"
  shows "char_at (lexeme t) 0 = c \<and> (rest \<noteq> [] \<longrightarrow> 2 \<le> tok_length t)"
proof -
  have len: "length (token_text t) = tok_length t" by (simp add: token_text_def)
  then have pos: "0 < tok_length t" using assms by auto
  then have "c = char_at (lexeme t) 0"
    using assms by (simp add: token_text_def token_chars_Cons)
  moreover have "rest \<noteq> [] \<Longrightarrow> 2 \<le> tok_length t" using len assms by (cases rest) auto
  ultimately show ?thesis by simp
qed

lemma parser_init_Cons [simp]:
  "current (parser_init (token_stream l c (t # ts))) = t"
  "had_error (parser_init (token_stream l c ts)) = False"
  "diagnostics (parser_init (token_stream l c ts)) = []"
  by (auto simp: parser_init_def token_stream_def lexer_next_token_def split: list.splits)

lemma parser_init_Nil [simp]:
  "tok_type (current (parser_init (token_stream l c []))) = TOK_EOF"
  by (simp add: parser_init_def token_stream_def lexer_next_token_def eof_token_def)

lemma advance_parser_init:
  "tok_type t \<noteq> TOK_EOF \<Longrightarrow>
   snd (advance (parser_init (token_stream l c (t # ts)))) = parser_init (token_stream l c ts)"
  by (auto simp: advance_def parser_init_def token_stream_def lexer_next_token_def is_at_end_def
      eof_token_def split: list.splits)

lemma advance_at_end: "is_at_end p \<Longrightarrow> advance p = (current p, p)"
  by (simp add: advance_def)

lemma advance_line_end:
  "line_end e \<Longrightarrow>
   tok_type (current (parser_init (token_stream l c e))) \<in> {TOK_NL, TOK_EOF} \<and>
   snd (advance (parser_init (token_stream l c e))) = parser_init (token_stream l c [])"
  by (cases e; cases "tl e")
    (auto simp: line_end_def advance_parser_init advance_at_end is_at_end_def)

lemma register_operand_parse:
  assumes "register_operand (current p) = Some r"
  shows "parse_variable_operand p = (Some (Base r), snd (advance p))"
  using assms
  by (auto simp: register_operand_def parse_variable_operand_register split: if_splits)

lemma source_operand_type:
  "source_operand t = Some v \<Longrightarrow> tok_type t = TOK_NUM \<or> tok_type t = TOK_IDENT"
  by (auto simp: source_operand_def register_operand_def split: if_splits)

lemma source_operand_parse:
  assumes "source_operand (current p) = Some v"
  shows "parse_var_or_imm p = (Some (v, tok_type (current p) = TOK_NUM), snd (advance p))"
proof (cases "tok_type (current p) = TOK_NUM")
  case True
  then show ?thesis
    using assms by (auto simp: parse_var_or_imm_def Let_def source_operand_def parse_imm_literal)
next
  case False
  then have "register_operand (current p) = Some (case v of Base n \<Rightarrow> n)" "v = Base (case v of Base n \<Rightarrow> n)"
    using assms by (auto simp: source_operand_def)
  then show ?thesis
    using False source_operand_type [OF assms] register_operand_parse [of p]
    by (auto simp: parse_var_or_imm_def Let_def)
qed

lemma parse_cmd_add_sub:
  assumes k: "tok_type k = TOK_ADD \<or> tok_type k = TOK_SUB"
    and d: "register_operand d = Some r"
    and a: "source_operand a = Some va" and b: "source_operand b = Some vb"
    and e: "line_end e"
  shows "parse_cmd (parser_init (token_stream l c (k # d # a # b # e))) =
     (Some \<lparr>cmd_type = (if tok_type k = TOK_ADD then CMD_ADD else CMD_SUB),
            destination = Base r, val_a = va, val_b = vb,
            is_a_immediate = (tok_type a = TOK_NUM), is_a_string = False,
            is_b_immediate = (tok_type b = TOK_NUM), is_b_string = False,
            branch_condition = BRANCH_NONE\<rparr>,
      parser_init (token_stream l c []))"
proof -
  have td: "tok_type d \<noteq> TOK_EOF" using d by (auto simp: register_operand_def split: if_splits)
  have ta: "tok_type a \<noteq> TOK_EOF" using source_operand_type [OF a] by auto
  have tb: "tok_type b \<noteq> TOK_EOF" using source_operand_type [OF b] by auto
  show ?thesis
    using k d a b advance_line_end [OF e, of l c] td ta tb
    by (auto simp: parse_cmd_def skip_nls_no_nl Let_def advance_parser_init
        register_operand_parse source_operand_parse create_command_def)
qed

lemma parse_cmd_mov:
  assumes k: "tok_type k = TOK_MOV"
    and d: "register_operand d = Some r"
    and a: "source_operand a = Some va"
    and e: "line_end e"
  shows "parse_cmd (parser_init (token_stream l c (k # d # a # e))) =
     (Some \<lparr>cmd_type = CMD_MOV, destination = Base r, val_a = va, val_b = Num_val 0,
            is_a_immediate = (tok_type a = TOK_NUM), is_a_string = False,
            is_b_immediate = False, is_b_string = False,
            branch_condition = BRANCH_NONE\<rparr>,
      parser_init (token_stream l c []))"
proof -
  have td: "tok_type d \<noteq> TOK_EOF" using d by (auto simp: register_operand_def split: if_splits)
  have ta: "tok_type a \<noteq> TOK_EOF" using source_operand_type [OF a] by auto
  show ?thesis
    using k d a advance_line_end [OF e, of l c] td ta
    by (auto simp: parse_cmd_def skip_nls_no_nl Let_def advance_parser_init
        register_operand_parse source_operand_parse create_command_def)
qed

lemma parse_cmd_cmp:
  assumes k: "tok_type k = TOK_CMP \<or> tok_type k = TOK_CMP_U"
    and a: "source_operand a = Some va" and b: "source_operand b = Some vb"
    and e: "line_end e"
  shows "parse_cmd (parser_init (token_stream l c (k # a # b # e))) =
     (Some \<lparr>cmd_type = (if tok_type k = TOK_CMP then CMD_CMP else CMD_CMP_U),
            destination = Num_val 0, val_a = va, val_b = vb,
            is_a_immediate = (tok_type a = TOK_NUM), is_a_string = False,
            is_b_immediate = (tok_type b = TOK_NUM), is_b_string = False,
            branch_condition = BRANCH_NONE\<rparr>,
      parser_init (token_stream l c []))"
proof -
  have ta: "tok_type a \<noteq> TOK_EOF" using source_operand_type [OF a] by auto
  have tb: "tok_type b \<noteq> TOK_EOF" using source_operand_type [OF b] by auto
  show ?thesis
    using k a b advance_line_end [OF e, of l c] ta tb
    by (auto simp: parse_cmd_def skip_nls_no_nl Let_def advance_parser_init
        source_operand_parse create_command_def)
qed

lemma base_signifier_is_base:
  assumes "base_signifier x"
  shows "is_base x" and "take 1 (strdup (lexeme x)) = token_text x"
proof -
  obtain ch where ch: "token_text x = [ch]" "ch = CHR ''d'' \<or> ch = CHR ''x'' \<or> ch = CHR ''b'' \<or> ch = CHR ''s''"
    using assms by (auto simp: base_signifier_def)
  have len: "tok_length x = 1"
    using ch(1) by (metis length_Cons list.size(3) One_nat_def length_token_chars
        token_text_def diff_zero)
  have c0: "char_at (lexeme x) 0 = ch"
    using token_text_Cons [OF ch(1)] by simp
  show "is_base x" using len c0 ch(2) by (auto simp: is_base_def)
  have "ch \<noteq> CHR 0x00" using ch(2) by auto
  then obtain rest where "lexeme x = ch # rest"
    using c0 by (cases "lexeme x") (auto simp: char_at_def)
  then show "take 1 (strdup (lexeme x)) = token_text x"
    using \<open>ch \<noteq> CHR 0x00\<close> ch(1) by (simp add: strdup_def)
qed

lemma parse_cmd_print:
  assumes k: "tok_type k = TOK_PRINT"
    and x: "base_signifier x"
    and b: "source_operand b = Some vb"
    and e: "line_end e"
  shows "parse_cmd (parser_init (token_stream l c (k # x # b # e))) =
     (Some \<lparr>cmd_type = CMD_PRINT, destination = Num_val 0,
            val_a = Str_val (strdup (lexeme x)), val_b = vb,
            is_a_immediate = False, is_a_string = False,
            is_b_immediate = (tok_type b = TOK_NUM), is_b_string = False,
            branch_condition = BRANCH_NONE\<rparr>,
      parser_init (token_stream l c []))"
proof -
  have tx: "tok_type x \<noteq> TOK_EOF" using x by (auto simp: base_signifier_def)
  have tb: "tok_type b \<noteq> TOK_EOF" using source_operand_type [OF b] by auto
  show ?thesis
    using k b advance_line_end [OF e, of l c] tx tb base_signifier_is_base(1) [OF x]
    by (auto simp: parse_cmd_def skip_nls_no_nl Let_def advance_parser_init
        source_operand_parse create_command_def)
qed

lemma parse_commands_single:
  assumes "parse_cmd p = (Some cmd, p')" and "\<not> is_at_end p"
    and "\<not> had_error p'" and "is_at_end p'"
  shows "parse_commands p = ([cmd], p')"
proof -
  have step: "parse_step p [] = (p', [cmd])"
    using assms by (simp add: parse_step_def)
  have "parse_loop p [] = parse_loop p' [cmd]"
    using assms(2) step by (subst parse_loop.simps) simp
  also have "\<dots> = ([cmd], p')"
    using assms(4) by (subst parse_loop.simps) simp
  finally show ?thesis by (simp add: parse_commands_def)
qed

lemma parse_commands_instruction:
  assumes "parse_cmd (parser_init (token_stream l c (k # ts))) =
      (Some cmd, parser_init (token_stream l c []))"
    and "tok_type k \<noteq> TOK_EOF"
  shows "parse_commands (parser_init (token_stream l c (k # ts))) =
      ([cmd], parser_init (token_stream l c []))"
  using assms by (intro parse_commands_single) (simp_all add: is_at_end_def)

lemma parse_loop_at_end: "is_at_end (snd (parse_loop p cmds))"
proof (induction p cmds rule: parse_loop.induct)
  case (1 parser cmds)
  show ?case
  proof (cases "is_at_end parser")
    case True
    then show ?thesis by (subst parse_loop.simps) simp
  next
    case False
    then show ?thesis using 1 by (subst parse_loop.simps) simp
  qed
qed

lemma instruction_tokens_parse:
  assumes "instruction_tokens ts"
  shows "\<exists>cmd. \<forall>e. line_end e \<longrightarrow>
           parse_commands (parser_init (token_stream l c (ts @ e))) =
             ([cmd], parser_init (token_stream l c []))"
proof -
  consider
    (add) k x y z where "ts = [k, x, y, z]" "tok_type k = TOK_ADD \<or> tok_type k = TOK_SUB"
      "register_operand x \<noteq> None" "source_operand y \<noteq> None" "source_operand z \<noteq> None"
  | (mov) k x y where "ts = [k, x, y]" "tok_type k = TOK_MOV"
      "register_operand x \<noteq> None" "source_operand y \<noteq> None"
  | (cmp) k x y where "ts = [k, x, y]" "tok_type k = TOK_CMP \<or> tok_type k = TOK_CMP_U"
      "source_operand x \<noteq> None" "source_operand y \<noteq> None"
  | (print) k x y where "ts = [k, x, y]" "tok_type k = TOK_PRINT"
      "base_signifier x" "source_operand y \<noteq> None"
    using assms(1) by (auto simp: instruction_tokens_def split: list.splits)
  then show ?thesis
  proof cases
    case add
    then obtain r va vb where ops: "register_operand x = Some r" "source_operand y = Some va"
      "source_operand z = Some vb" by auto
    have k: "tok_type k \<noteq> TOK_EOF" using add(2) by auto
    show ?thesis
      using parse_cmd_add_sub [OF add(2) ops, of _ l c] k
      by (auto simp: add(1) intro!: exI parse_commands_instruction)
  next
    case mov
    then obtain r va where ops: "register_operand x = Some r" "source_operand y = Some va"
      by auto
    have k: "tok_type k \<noteq> TOK_EOF" using mov(2) by auto
    show ?thesis
      using parse_cmd_mov [OF mov(2) ops, of _ l c] k
      by (auto simp: mov(1) intro!: exI parse_commands_instruction)
  next
    case cmp
    then obtain va vb where ops: "source_operand x = Some va" "source_operand y = Some vb"
      by auto
    have k: "tok_type k \<noteq> TOK_EOF" using cmp(2) by auto
    show ?thesis
      using parse_cmd_cmp [OF cmp(2) ops, of _ l c] k
      by (auto simp: cmp(1) intro!: exI parse_commands_instruction)
  next
    case print
    then obtain vb where ops: "source_operand y = Some vb" by auto
    have k: "tok_type k \<noteq> TOK_EOF" using print(2) by auto
    show ?thesis
      using parse_cmd_print [OF print(2) print(3) ops, of _ l c] k
      by (auto simp: print(1) intro!: exI parse_commands_instruction)
  qed
qed

section \<open>The claims\<close>

text \<open>
  Claim C1. Error containment: a malformed instruction yields no command and one
  diagnostic, and the instruction on the next line is parsed unaffected. The code does
  not contain the error of \<^verbatim>\<open>"add x1 x2\nmov x3 x1\n"\<close>: \<^verbatim>\<open>parse_var_or_imm\<close> skips the
  newline that stands where the last operand of \<^verbatim>\<open>add\<close> is missing, the diagnostic is
  printed at \<^verbatim>\<open>mov\<close> on line 2, and the recovery of \<^verbatim>\<open>parse_commands\<close> then discards the
  whole second line. No command is returned, although \<^verbatim>\<open>mov x3 x1\<close> is well-formed.
\<close>

theorem missing_operand_swallows_next_line:
  "parse_commands (parser_init missing_lexer) =
     ([],
      \<lparr>lexer = \<lparr>pending = [], eof_line = 3, eof_column = 1\<rparr>, had_error = False,
       current = \<lparr>tok_type = TOK_EOF, lexeme = [], tok_length = 0, line = 3, column = 1\<rparr>,
       next_tok = \<lparr>tok_type = TOK_EOF, lexeme = [], tok_length = 0, line = 3, column = 1\<rparr>,
       diagnostics =
         [\<lparr>at_token = ''mov'', token_type = TOK_MOV, token_length = 3,
           at_line = 2, at_column = 1\<rparr>]\<rparr>)"
  by code_simp

text \<open>
  The scenario of the specification that goes with the claim does hold: the text
  \<^verbatim>\<open>"add x1 x2 3\nbogus\nmov x3 x1\n"\<close> yields ADD then MOV and one diagnostic, at
  \<^verbatim>\<open>bogus\<close> on line 2.
\<close>

lemma bogus_scenario:
  "map cmd_type (fst (parse_commands (parser_init bogus_lexer))) = [CMD_ADD, CMD_MOV] \<and>
   diagnostics (snd (parse_commands (parser_init bogus_lexer))) =
     [\<lparr>at_token = ''bogus'', token_type = TOK_IDENT, token_length = 5,
       at_line = 2, at_column = 1\<rparr>]"
  by code_simp

text \<open>
  Claim C2. The text \<^verbatim>\<open>"print x 0xFF\n"\<close> yields one PRINT command whose operand A holds
  the string \<^verbatim>\<open>"x"\<close> and nothing more, and whose operand B is the immediate 255. The
  code returns one PRINT command with the immediate 255 in operand B, but \<^verbatim>\<open>strdup\<close>
  copies the lexeme up to the end of the source text: operand A holds
  \<^verbatim>\<open>"x 0xFF\n"\<close>, not \<^verbatim>\<open>"x"\<close>.
\<close>

theorem print_scenario_copies_rest_of_source:
  "fst (parse_commands (parser_init print_lexer)) =
     [\<lparr>cmd_type = CMD_PRINT, destination = Num_val 0,
       val_a = Str_val (''x 0xFF'' @ [CHR 0x0A]), val_b = Num_val 255,
       is_a_immediate = False, is_a_string = False, is_b_immediate = True,
       is_b_string = False, branch_condition = BRANCH_NONE\<rparr>] \<and>
   map val_a (fst (parse_commands (parser_init print_lexer))) \<noteq> [Str_val ''x'']"
  by code_simp

text \<open>
  Claim C3, as stated: when \<^verbatim>\<open>parse_var_or_imm\<close> meets a token that is neither an
  identifier nor a number, it fails and leaves the position unchanged, so that the
  offending token is still current when the diagnostic is printed. It does not hold: at
  the keyword \<^verbatim>\<open>print\<close> the function fails and the parser has moved on to the token
  \<^verbatim>\<open>x\<close>.
\<close>

theorem invalid_operand_token_is_consumed:
  "fst (parse_var_or_imm (parser_init print_lexer)) = None \<and>
   current (parser_init print_lexer) = token_at print_src TOK_PRINT 0 5 1 1 \<and>
   current (snd (parse_var_or_imm (parser_init print_lexer))) =
     token_at print_src TOK_IDENT 6 1 1 7 \<and>
   current (snd (parse_var_or_imm (parser_init print_lexer))) \<noteq>
     current (parser_init print_lexer)"
  by code_simp

text \<open>
  Claim C3, amended: when \<^verbatim>\<open>parse_var_or_imm\<close> meets a token that is neither an
  identifier nor a number (and not a newline), it fails and skips the token with
  \<^verbatim>\<open>advance\<close>. Unless the token is the end-of-input sentinel, the token that followed
  it is the current token, and it is the one that the diagnostic of the failed
  instruction reports; at the sentinel the position is unchanged.
\<close>

theorem parse_var_or_imm_skips_invalid_token:
  assumes "tok_type (current p) \<noteq> TOK_IDENT" and "tok_type (current p) \<noteq> TOK_NUM"
    and "tok_type (current p) \<noteq> TOK_NL"
  shows "parse_var_or_imm p = (None, snd (advance p)) \<and>
         (tok_type (current p) \<noteq> TOK_EOF \<longrightarrow>
            current (snd (parse_var_or_imm p)) = next_tok p \<and>
            diagnostics (print_error (snd (parse_var_or_imm p)) m) =
              diagnostics p @ [diagnostic_of (next_tok p)]) \<and>
         (tok_type (current p) = TOK_EOF \<longrightarrow> snd (parse_var_or_imm p) = p)"
  using assms
  by (simp add: parse_var_or_imm_def Let_def advance_def is_at_end_def print_error_def)

theorem parse_var_or_imm_skips_invalid_token_witness:
  "tok_type (current (parser_init print_lexer)) \<noteq> TOK_IDENT \<and>
   tok_type (current (parser_init print_lexer)) \<noteq> TOK_NUM \<and>
   tok_type (current (parser_init print_lexer)) \<noteq> TOK_NL \<and>
   tok_type (current (parser_init print_lexer)) \<noteq> TOK_EOF \<and>
   parse_var_or_imm (parser_init print_lexer) = (None, snd (advance (parser_init print_lexer))) \<and>
   current (snd (parse_var_or_imm (parser_init print_lexer))) = next_tok (parser_init print_lexer) \<and>
   diagnostics (print_error (snd (parse_var_or_imm (parser_init print_lexer))) []) =
     diagnostics (parser_init print_lexer) @ [diagnostic_of (next_tok (parser_init print_lexer))]"
proof -
  let ?p = "parser_init print_lexer"
  have h: "tok_type (current ?p) \<noteq> TOK_IDENT" "tok_type (current ?p) \<noteq> TOK_NUM"
    "tok_type (current ?p) \<noteq> TOK_NL" "tok_type (current ?p) \<noteq> TOK_EOF"
    by code_simp+
  show ?thesis
    using h parse_var_or_imm_skips_invalid_token [OF h(1) h(2) h(3), of "[]"] by blast
qed

text \<open>
  Claim C4, as stated: immediate parsing succeeds exactly on the valid literals of the
  detected base, and every token of decimal digits only, such as \<^verbatim>\<open>09\<close>, is accepted
  with its decimal value. It does not hold: \<^verbatim>\<open>09\<close> is rejected and the parser stays
  where it is.
\<close>

theorem leading_zero_decimal_rejected:
  "parse_imm (parser_on (whole_token TOK_NUM ''09'')) =
     (None, parser_on (whole_token TOK_NUM ''09'')) \<and>
   fst (parse_imm (parser_on (whole_token TOK_NUM ''09''))) \<noteq> Some (Num_val 9)"
  by code_simp

text \<open>
  Claim C4, amended: for a numeric token, \<^verbatim>\<open>parse_imm\<close> succeeds exactly when the token
  text is a literal of \<open>literal_value\<close>: \<^verbatim>\<open>0x\<close> or \<^verbatim>\<open>0X\<close> followed by hexadecimal digits
  only, \<^verbatim>\<open>0b\<close> or \<^verbatim>\<open>0B\<close> followed by binary digits only, or decimal digits only in a
  text that has fewer than two characters or does not begin with \<^verbatim>\<open>0\<close>. On success it
  stores the value that the digits denote in that base, modulo \<open>2 ^ 64\<close>, and advances;
  on failure the parser is unchanged. \<^verbatim>\<open>0x1F\<close> gives 31, \<^verbatim>\<open>0b101\<close> gives 5, \<^verbatim>\<open>42\<close>
  gives 42 and \<^verbatim>\<open>7\<close> gives 7; \<^verbatim>\<open>0x1G\<close>, \<^verbatim>\<open>10x\<close> and \<^verbatim>\<open>09\<close> are rejected.
\<close>

theorem parse_imm_literal_value:
  "(tok_type (current p) = TOK_NUM \<longrightarrow>
      (case literal_value (token_text (current p)) of
         None \<Rightarrow> parse_imm p = (None, p)
       | Some n \<Rightarrow>
           (\<exists>v. parse_imm p = (Some (Num_val v), snd (advance p)) \<and> unat v = n mod 2 ^ 64))) \<and>
   fst (parse_imm (parser_on (whole_token TOK_NUM ''0x1F''))) = Some (Num_val 31) \<and>
   fst (parse_imm (parser_on (whole_token TOK_NUM ''0b101''))) = Some (Num_val 5) \<and>
   fst (parse_imm (parser_on (whole_token TOK_NUM ''42''))) = Some (Num_val 42) \<and>
   fst (parse_imm (parser_on (whole_token TOK_NUM ''0x1G''))) = None \<and>
   fst (parse_imm (parser_on (whole_token TOK_NUM ''10x''))) = None \<and>
   fst (parse_imm (parser_on (whole_token TOK_NUM ''7''))) = Some (Num_val 7) \<and>
   fst (parse_imm (parser_on (whole_token TOK_NUM ''09''))) = None"
proof -
  have general: "tok_type (current p) = TOK_NUM \<longrightarrow>
      (case literal_value (token_text (current p)) of
         None \<Rightarrow> parse_imm p = (None, p)
       | Some n \<Rightarrow>
           (\<exists>v. parse_imm p = (Some (Num_val v), snd (advance p)) \<and> unat v = n mod 2 ^ 64))"
    by (auto simp: parse_imm_literal unat_of_nat split: option.splits)
  have e1: "fst (parse_imm (parser_on (whole_token TOK_NUM ''0x1F''))) = Some (Num_val 31)"
    by code_simp
  have e2: "fst (parse_imm (parser_on (whole_token TOK_NUM ''0b101''))) = Some (Num_val 5)"
    by code_simp
  have e3: "fst (parse_imm (parser_on (whole_token TOK_NUM ''42''))) = Some (Num_val 42)"
    by code_simp
  have e4: "fst (parse_imm (parser_on (whole_token TOK_NUM ''0x1G''))) = None"
    by code_simp
  have e5: "fst (parse_imm (parser_on (whole_token TOK_NUM ''10x''))) = None"
    by code_simp
  have e6: "fst (parse_imm (parser_on (whole_token TOK_NUM ''7''))) = Some (Num_val 7)"
    by code_simp
  have e7: "fst (parse_imm (parser_on (whole_token TOK_NUM ''09''))) = None"
    by code_simp
  show ?thesis using general e1 e2 e3 e4 e5 e6 e7 by blast
qed

theorem parse_imm_literal_value_witness:
  "tok_type (current (parser_on (whole_token TOK_NUM ''0x1F''))) = TOK_NUM \<and>
   literal_value (token_text (current (parser_on (whole_token TOK_NUM ''0x1F'')))) = Some 31 \<and>
   (\<exists>v. parse_imm (parser_on (whole_token TOK_NUM ''0x1F'')) =
          (Some (Num_val v), snd (advance (parser_on (whole_token TOK_NUM ''0x1F'')))) \<and>
        unat v = 31 mod 2 ^ 64)"
proof -
  let ?p = "parser_on (whole_token TOK_NUM ''0x1F'')"
  have h: "tok_type (current ?p) = TOK_NUM" by code_simp
  have l: "literal_value (token_text (current ?p)) = Some 31" by code_simp
  show ?thesis
    using h l parse_imm_literal_value [of ?p] by simp
qed

text \<open>
  Claim C5, as stated: every well-formed single instruction of each kind, with a
  destination register and register-or-immediate operands as the grammar table has
  them, yields exactly one command of the matching kind. It does not hold: the source
  operand of \<^verbatim>\<open>mov x1 09\<close> is a numeric literal of decimal digits only, and the
  instruction yields no command and one diagnostic, at \<^verbatim>\<open>09\<close>.
\<close>

theorem leading_zero_operand_yields_no_command:
  "parse_commands (parser_init leading_zero_lexer) =
     ([],
      \<lparr>lexer = \<lparr>pending = [], eof_line = 2, eof_column = 1\<rparr>, had_error = False,
       current = \<lparr>tok_type = TOK_EOF, lexeme = [], tok_length = 0, line = 2, column = 1\<rparr>,
       next_tok = \<lparr>tok_type = TOK_EOF, lexeme = [], tok_length = 0, line = 2, column = 1\<rparr>,
       diagnostics =
         [\<lparr>at_token = ''09'', token_type = TOK_NUM, token_length = 2,
           at_line = 1, at_column = 8\<rparr>]\<rparr>)"
  by code_simp

text \<open>
  Claim C5, amended: a single instruction of each kind whose register operands name a
  register from 0 to 31 and whose immediate operands are literals that immediate
  parsing accepts (\<open>literal_value\<close>, so not a decimal with a leading zero), ended by a
  newline or by the end of the input, yields exactly one command of the matching kind
  and no diagnostic. ADD and SUB fill the destination and both operands, MOV the
  destination and operand A, CMP and CMP_U both operands, PRINT operand A with a string
  that begins with the base signifier and operand B with the value. An \<open>is_immediate\<close>
  flag is true exactly when the operand token is a numeric literal. Every other slot
  and flag is as \<^verbatim>\<open>create_command\<close> leaves it. The parser ends at the sentinel without
  an error.
\<close>

theorem well_formed_instruction:
  assumes e: "line_end e"
  shows
   "((tok_type k = TOK_ADD \<or> tok_type k = TOK_SUB) \<and> register_operand d = Some r \<and>
     source_operand a = Some va \<and> source_operand b = Some vb \<longrightarrow>
     parse_commands (parser_init (token_stream l c ([k, d, a, b] @ e))) =
       ([\<lparr>cmd_type = (if tok_type k = TOK_ADD then CMD_ADD else CMD_SUB),
          destination = Base r, val_a = va, val_b = vb,
          is_a_immediate = (tok_type a = TOK_NUM), is_a_string = False,
          is_b_immediate = (tok_type b = TOK_NUM), is_b_string = False,
          branch_condition = BRANCH_NONE\<rparr>],
        parser_init (token_stream l c []))) \<and>
    (tok_type k = TOK_MOV \<and> register_operand d = Some r \<and> source_operand a = Some va \<longrightarrow>
     parse_commands (parser_init (token_stream l c ([k, d, a] @ e))) =
       ([\<lparr>cmd_type = CMD_MOV, destination = Base r, val_a = va, val_b = Num_val 0,
          is_a_immediate = (tok_type a = TOK_NUM), is_a_string = False,
          is_b_immediate = False, is_b_string = False,
          branch_condition = BRANCH_NONE\<rparr>],
        parser_init (token_stream l c []))) \<and>
    ((tok_type k = TOK_CMP \<or> tok_type k = TOK_CMP_U) \<and>
     source_operand a = Some va \<and> source_operand b = Some vb \<longrightarrow>
     parse_commands (parser_init (token_stream l c ([k, a, b] @ e))) =
       ([\<lparr>cmd_type = (if tok_type k = TOK_CMP then CMD_CMP else CMD_CMP_U),
          destination = Num_val 0, val_a = va, val_b = vb,
          is_a_immediate = (tok_type a = TOK_NUM), is_a_string = False,
          is_b_immediate = (tok_type b = TOK_NUM), is_b_string = False,
          branch_condition = BRANCH_NONE\<rparr>],
        parser_init (token_stream l c []))) \<and>
    (tok_type k = TOK_PRINT \<and> base_signifier x \<and> source_operand b = Some vb \<longrightarrow>
     (\<exists>s. take 1 s = token_text x \<and>
          parse_commands (parser_init (token_stream l c ([k, x, b] @ e))) =
            ([\<lparr>cmd_type = CMD_PRINT, destination = Num_val 0, val_a = Str_val s, val_b = vb,
               is_a_immediate = False, is_a_string = False,
               is_b_immediate = (tok_type b = TOK_NUM), is_b_string = False,
               branch_condition = BRANCH_NONE\<rparr>],
             parser_init (token_stream l c []))))"
proof (intro conjI impI)
  assume h: "(tok_type k = TOK_ADD \<or> tok_type k = TOK_SUB) \<and> register_operand d = Some r \<and>
     source_operand a = Some va \<and> source_operand b = Some vb"
  then have "tok_type k \<noteq> TOK_EOF" by auto
  then show "parse_commands (parser_init (token_stream l c ([k, d, a, b] @ e))) =
       ([\<lparr>cmd_type = (if tok_type k = TOK_ADD then CMD_ADD else CMD_SUB),
          destination = Base r, val_a = va, val_b = vb,
          is_a_immediate = (tok_type a = TOK_NUM), is_a_string = False,
          is_b_immediate = (tok_type b = TOK_NUM), is_b_string = False,
          branch_condition = BRANCH_NONE\<rparr>],
        parser_init (token_stream l c []))"
    using h parse_cmd_add_sub [OF _ _ _ _ e, of k d r a va b vb l c]
    by (simp add: parse_commands_instruction)
next
  assume h: "tok_type k = TOK_MOV \<and> register_operand d = Some r \<and> source_operand a = Some va"
  then show "parse_commands (parser_init (token_stream l c ([k, d, a] @ e))) =
       ([\<lparr>cmd_type = CMD_MOV, destination = Base r, val_a = va, val_b = Num_val 0,
          is_a_immediate = (tok_type a = TOK_NUM), is_a_string = False,
          is_b_immediate = False, is_b_string = False,
          branch_condition = BRANCH_NONE\<rparr>],
        parser_init (token_stream l c []))"
    using parse_cmd_mov [OF _ _ _ e, of k d r a va l c]
    by (simp add: parse_commands_instruction)
next
  assume h: "(tok_type k = TOK_CMP \<or> tok_type k = TOK_CMP_U) \<and>
     source_operand a = Some va \<and> source_operand b = Some vb"
  then have "tok_type k \<noteq> TOK_EOF" by auto
  then show "parse_commands (parser_init (token_stream l c ([k, a, b] @ e))) =
       ([\<lparr>cmd_type = (if tok_type k = TOK_CMP then CMD_CMP else CMD_CMP_U),
          destination = Num_val 0, val_a = va, val_b = vb,
          is_a_immediate = (tok_type a = TOK_NUM), is_a_string = False,
          is_b_immediate = (tok_type b = TOK_NUM), is_b_string = False,
          branch_condition = BRANCH_NONE\<rparr>],
        parser_init (token_stream l c []))"
    using h parse_cmd_cmp [OF _ _ _ e, of k a va b vb l c]
    by (simp add: parse_commands_instruction)
next
  assume h: "tok_type k = TOK_PRINT \<and> base_signifier x \<and> source_operand b = Some vb"
  then have "parse_commands (parser_init (token_stream l c ([k, x, b] @ e))) =
            ([\<lparr>cmd_type = CMD_PRINT, destination = Num_val 0,
               val_a = Str_val (strdup (lexeme x)), val_b = vb,
               is_a_immediate = False, is_a_string = False,
               is_b_immediate = (tok_type b = TOK_NUM), is_b_string = False,
               branch_condition = BRANCH_NONE\<rparr>],
             parser_init (token_stream l c []))"
    using parse_cmd_print [OF _ _ _ e, of k x b vb l c]
    by (simp add: parse_commands_instruction)
  moreover have "take 1 (strdup (lexeme x)) = token_text x"
    using h base_signifier_is_base(2) by simp
  ultimately show "\<exists>s. take 1 s = token_text x \<and>
          parse_commands (parser_init (token_stream l c ([k, x, b] @ e))) =
            ([\<lparr>cmd_type = CMD_PRINT, destination = Num_val 0, val_a = Str_val s, val_b = vb,
               is_a_immediate = False, is_a_string = False,
               is_b_immediate = (tok_type b = TOK_NUM), is_b_string = False,
               branch_condition = BRANCH_NONE\<rparr>],
             parser_init (token_stream l c []))"
    by blast
qed

theorem well_formed_instruction_witness:
  "parse_commands (parser_init (token_stream 2 1
       [token_at add_src TOK_ADD 0 3 1 1, token_at add_src TOK_IDENT 4 2 1 5,
        token_at add_src TOK_IDENT 7 2 1 8, token_at add_src TOK_NUM 10 1 1 11])) =
     ([\<lparr>cmd_type = CMD_ADD, destination = Base 1, val_a = Base 2, val_b = Num_val 5,
        is_a_immediate = False, is_a_string = False, is_b_immediate = True,
        is_b_string = False, branch_condition = BRANCH_NONE\<rparr>],
      parser_init (token_stream 2 1 [])) \<and>
   parse_commands (parser_init (token_stream 4 1
       [token_at bogus_src TOK_MOV 18 3 3 1, token_at bogus_src TOK_IDENT 22 2 3 5,
        token_at bogus_src TOK_IDENT 25 2 3 8, token_at bogus_src TOK_NL 27 1 3 10])) =
     ([\<lparr>cmd_type = CMD_MOV, destination = Base 3, val_a = Base 1, val_b = Num_val 0,
        is_a_immediate = False, is_a_string = False, is_b_immediate = False,
        is_b_string = False, branch_condition = BRANCH_NONE\<rparr>],
      parser_init (token_stream 4 1 [])) \<and>
   parse_commands (parser_init (token_stream 1 1
       [whole_token TOK_CMP_U ''cmp_u'', whole_token TOK_NUM ''7'',
        whole_token TOK_IDENT ''x9''])) =
     ([\<lparr>cmd_type = CMD_CMP_U, destination = Num_val 0, val_a = Num_val 7, val_b = Base 9,
        is_a_immediate = True, is_a_string = False, is_b_immediate = False,
        is_b_string = False, branch_condition = BRANCH_NONE\<rparr>],
      parser_init (token_stream 1 1 [])) \<and>
   (\<exists>s. take 1 s = ''x'' \<and>
        parse_commands (parser_init (token_stream 2 1
            [token_at print_src TOK_PRINT 0 5 1 1, token_at print_src TOK_IDENT 6 1 1 7,
             token_at print_src TOK_NUM 8 4 1 9, token_at print_src TOK_NL 12 1 1 13])) =
          ([\<lparr>cmd_type = CMD_PRINT, destination = Num_val 0, val_a = Str_val s,
             val_b = Num_val 255, is_a_immediate = False, is_a_string = False,
             is_b_immediate = True, is_b_string = False, branch_condition = BRANCH_NONE\<rparr>],
           parser_init (token_stream 2 1 [])))"
proof -
  have e: "line_end []" by code_simp
  let ?k = "token_at add_src TOK_ADD 0 3 1 1"
  let ?d = "token_at add_src TOK_IDENT 4 2 1 5"
  let ?a = "token_at add_src TOK_IDENT 7 2 1 8"
  let ?b = "token_at add_src TOK_NUM 10 1 1 11"
  have add_h: "tok_type ?k = TOK_ADD" "register_operand ?d = Some 1"
    "source_operand ?a = Some (Base 2)" "source_operand ?b = Some (Num_val 5)"
    "tok_type ?a \<noteq> TOK_NUM" "tok_type ?b = TOK_NUM"
    by code_simp+
  have add: "parse_commands (parser_init (token_stream 2 1 [?k, ?d, ?a, ?b])) =
     ([\<lparr>cmd_type = CMD_ADD, destination = Base 1, val_a = Base 2, val_b = Num_val 5,
        is_a_immediate = False, is_a_string = False, is_b_immediate = True,
        is_b_string = False, branch_condition = BRANCH_NONE\<rparr>],
      parser_init (token_stream 2 1 []))"
    using well_formed_instruction [OF e, where k = ?k and d = ?d and r = 1 and a = ?a
        and va = "Base 2" and b = ?b and vb = "Num_val 5" and l = 2 and c = 1] add_h
    by simp
  let ?nl = "token_at bogus_src TOK_NL 27 1 3 10"
  have nl: "line_end [?nl]" by code_simp
  let ?m = "token_at bogus_src TOK_MOV 18 3 3 1"
  let ?md = "token_at bogus_src TOK_IDENT 22 2 3 5"
  let ?ma = "token_at bogus_src TOK_IDENT 25 2 3 8"
  have mov_h: "tok_type ?m = TOK_MOV" "register_operand ?md = Some 3"
    "source_operand ?ma = Some (Base 1)" "tok_type ?ma \<noteq> TOK_NUM"
    by code_simp+
  have mov: "parse_commands (parser_init (token_stream 4 1 [?m, ?md, ?ma, ?nl])) =
     ([\<lparr>cmd_type = CMD_MOV, destination = Base 3, val_a = Base 1, val_b = Num_val 0,
        is_a_immediate = False, is_a_string = False, is_b_immediate = False,
        is_b_string = False, branch_condition = BRANCH_NONE\<rparr>],
      parser_init (token_stream 4 1 []))"
    using well_formed_instruction [OF nl, where k = ?m and d = ?md and r = 3 and a = ?ma
        and va = "Base 1" and l = 4 and c = 1] mov_h
    by simp
  let ?c = "whole_token TOK_CMP_U ''cmp_u''"
  let ?ca = "whole_token TOK_NUM ''7''"
  let ?cb = "whole_token TOK_IDENT ''x9''"
  have cmp_h: "tok_type ?c = TOK_CMP_U" "tok_type ?c \<noteq> TOK_CMP"
    "source_operand ?ca = Some (Num_val 7)" "source_operand ?cb = Some (Base 9)"
    "tok_type ?ca = TOK_NUM" "tok_type ?cb \<noteq> TOK_NUM"
    by code_simp+
  have cmp: "parse_commands (parser_init (token_stream 1 1 [?c, ?ca, ?cb])) =
     ([\<lparr>cmd_type = CMD_CMP_U, destination = Num_val 0, val_a = Num_val 7, val_b = Base 9,
        is_a_immediate = True, is_a_string = False, is_b_immediate = False,
        is_b_string = False, branch_condition = BRANCH_NONE\<rparr>],
      parser_init (token_stream 1 1 []))"
    using well_formed_instruction [OF e, where k = ?c and a = ?ca and va = "Num_val 7"
        and b = ?cb and vb = "Base 9" and l = 1 and c = 1] cmp_h
    by simp
  let ?pnl = "token_at print_src TOK_NL 12 1 1 13"
  have pnl: "line_end [?pnl]" by code_simp
  let ?p = "token_at print_src TOK_PRINT 0 5 1 1"
  let ?px = "token_at print_src TOK_IDENT 6 1 1 7"
  let ?pb = "token_at print_src TOK_NUM 8 4 1 9"
  have print_h: "tok_type ?p = TOK_PRINT" "base_signifier ?px" "token_text ?px = ''x''"
    "source_operand ?pb = Some (Num_val 255)" "tok_type ?pb = TOK_NUM"
    by code_simp+
  have print: "\<exists>s. take 1 s = ''x'' \<and>
        parse_commands (parser_init (token_stream 2 1 [?p, ?px, ?pb, ?pnl])) =
          ([\<lparr>cmd_type = CMD_PRINT, destination = Num_val 0, val_a = Str_val s,
             val_b = Num_val 255, is_a_immediate = False, is_a_string = False,
             is_b_immediate = True, is_b_string = False, branch_condition = BRANCH_NONE\<rparr>],
           parser_init (token_stream 2 1 []))"
    using well_formed_instruction [OF pnl, where k = ?p and x = ?px and b = ?pb
        and vb = "Num_val 255" and l = 2 and c = 1] print_h
    by simp
  show ?thesis using add mov cmp print by blast
qed

text \<open>
  Claim C6: an identifier token is accepted as a register operand exactly when its text
  is \<^verbatim>\<open>x\<close> followed by one or more characters that read in full as a base-10 integer
  from 0 to 31 (\<open>register_number\<close>; the characters are read the way \<^verbatim>\<open>strtol\<close> reads
  them). \<^verbatim>\<open>x0\<close> to \<^verbatim>\<open>x31\<close> are accepted with the indices 0 to 31, \<^verbatim>\<open>x32\<close> and \<^verbatim>\<open>x-1\<close>
  are rejected, and every register index in an operand of a command that
  \<^verbatim>\<open>parse_commands\<close> returns lies between 0 and 31.
\<close>

theorem register_operand_range:
  "(tok_type (current p) = TOK_IDENT \<and> lexed (current p) \<longrightarrow>
      parse_variable_operand p =
        (case register_number (current p) of
           None \<Rightarrow> (None, p)
         | Some n \<Rightarrow> (Some (Base n), snd (advance p)))) \<and>
   map (\<lambda>s. fst (parse_variable_operand (parser_on (whole_token TOK_IDENT s))))
     [''x0'', ''x1'', ''x2'', ''x3'', ''x4'', ''x5'', ''x6'', ''x7'', ''x8'', ''x9'', ''x10'',
      ''x11'', ''x12'', ''x13'', ''x14'', ''x15'', ''x16'', ''x17'', ''x18'', ''x19'', ''x20'',
      ''x21'', ''x22'', ''x23'', ''x24'', ''x25'', ''x26'', ''x27'', ''x28'', ''x29'', ''x30'',
      ''x31''] =
     map (\<lambda>n. Some (Base n)) [0..31] \<and>
   fst (parse_variable_operand (parser_on (whole_token TOK_IDENT ''x32''))) = None \<and>
   fst (parse_variable_operand (parser_on (whole_token TOK_IDENT ''x-1''))) = None \<and>
   (\<forall>c\<in>set (fst (parse_commands q)). \<forall>n.
      destination c = Base n \<or> val_a c = Base n \<or> val_b c = Base n \<longrightarrow> 0 \<le> n \<and> n \<le> 31)"
proof -
  have general: "tok_type (current p) = TOK_IDENT \<and> lexed (current p) \<longrightarrow>
      parse_variable_operand p =
        (case register_number (current p) of
           None \<Rightarrow> (None, p)
         | Some n \<Rightarrow> (Some (Base n), snd (advance p)))"
    by (simp add: parse_variable_operand_register)
  have accepted: "map (\<lambda>s. fst (parse_variable_operand (parser_on (whole_token TOK_IDENT s))))
     [''x0'', ''x1'', ''x2'', ''x3'', ''x4'', ''x5'', ''x6'', ''x7'', ''x8'', ''x9'', ''x10'',
      ''x11'', ''x12'', ''x13'', ''x14'', ''x15'', ''x16'', ''x17'', ''x18'', ''x19'', ''x20'',
      ''x21'', ''x22'', ''x23'', ''x24'', ''x25'', ''x26'', ''x27'', ''x28'', ''x29'', ''x30'',
      ''x31''] =
     map (\<lambda>n. Some (Base n)) [0..31]"
    by code_simp
  have r32: "fst (parse_variable_operand (parser_on (whole_token TOK_IDENT ''x32''))) = None"
    by code_simp
  have rneg: "fst (parse_variable_operand (parser_on (whole_token TOK_IDENT ''x-1''))) = None"
    by code_simp
  have inv: "\<forall>c\<in>set (fst (parse_commands q)). \<forall>n.
      destination c = Base n \<or> val_a c = Base n \<or> val_b c = Base n \<longrightarrow> 0 \<le> n \<and> n \<le> 31"
    using parse_commands_command_ok [of q]
    by (auto simp: command_ok_def register_ok_def)
  show ?thesis using general accepted r32 rneg inv by blast
qed

theorem register_operand_range_witness:
  "tok_type (current (parser_on (whole_token TOK_IDENT ''x31''))) = TOK_IDENT \<and>
   lexed (current (parser_on (whole_token TOK_IDENT ''x31''))) \<and>
   register_number (current (parser_on (whole_token TOK_IDENT ''x31''))) = Some 31 \<and>
   parse_variable_operand (parser_on (whole_token TOK_IDENT ''x31'')) =
     (Some (Base 31), snd (advance (parser_on (whole_token TOK_IDENT ''x31'')))) \<and>
   hd (fst (parse_commands (parser_init bogus_lexer)))
     \<in> set (fst (parse_commands (parser_init bogus_lexer))) \<and>
   val_a (hd (fst (parse_commands (parser_init bogus_lexer)))) = Base 2 \<and>
   (0::int) \<le> 2 \<and> (2::int) \<le> 31"
proof -
  let ?p = "parser_on (whole_token TOK_IDENT ''x31'')"
  let ?q = "parser_init bogus_lexer"
  have h: "tok_type (current ?p) = TOK_IDENT" "lexed (current ?p)"
    "register_number (current ?p) = Some 31"
    by code_simp+
  have c: "hd (fst (parse_commands ?q)) \<in> set (fst (parse_commands ?q))"
    "val_a (hd (fst (parse_commands ?q))) = Base 2"
    by code_simp+
  show ?thesis
    using h c register_operand_range [of ?p ?q] by auto
qed

text \<open>
  Claim C7: \<^verbatim>\<open>parse_commands\<close> is a total function (its loop is \<open>parse_loop\<close>, whose
  termination is proved above for every lexer state, a finite sequence of tokens before
  the sentinel), and it always ends with the parser at the end of the input. At the
  sentinel \<^verbatim>\<open>advance\<close> returns it and leaves the parser, its lexer included, as it is;
  \<^verbatim>\<open>consume_newline\<close> succeeds there without moving, and \<^verbatim>\<open>parse_commands\<close> returns
  at once. The end of the input ends an instruction as a newline does: a well-formed
  instruction gives the same result, one command and no diagnostic, with and without a
  newline behind it.
\<close>

theorem parse_commands_runs_to_end:
  "is_at_end (snd (parse_commands p)) \<and>
   (is_at_end p \<longrightarrow>
      advance p = (current p, p) \<and> consume_newline p = (True, p) \<and>
      parse_commands p = ([], p)) \<and>
   (instruction_tokens ts \<and> tok_type nl = TOK_NL \<longrightarrow>
      parse_commands (parser_init (token_stream l c ts)) =
        parse_commands (parser_init (token_stream l c (ts @ [nl]))) \<and>
      length (fst (parse_commands (parser_init (token_stream l c ts)))) = 1 \<and>
      diagnostics (snd (parse_commands (parser_init (token_stream l c ts)))) = [])"
proof (intro conjI impI)
  show "is_at_end (snd (parse_commands p))"
    by (simp add: parse_commands_def parse_loop_at_end)
next
  assume "is_at_end p"
  then show "advance p = (current p, p)" by (rule advance_at_end)
next
  assume "is_at_end p"
  then show "consume_newline p = (True, p)"
    by (simp add: consume_newline_def consume_def advance_at_end is_at_end_def)
next
  assume "is_at_end p"
  then show "parse_commands p = ([], p)"
    unfolding parse_commands_def by (subst parse_loop.simps) simp
next
  assume h: "instruction_tokens ts \<and> tok_type nl = TOK_NL"
  then have e: "line_end [nl]" "line_end []" by (simp_all add: line_end_def)
  obtain c1 where all: "\<forall>e. line_end e \<longrightarrow>
      parse_commands (parser_init (token_stream l c (ts @ e))) =
        ([c1], parser_init (token_stream l c []))"
    using h instruction_tokens_parse [of ts l c] by auto
  have c1: "parse_commands (parser_init (token_stream l c ts)) =
      ([c1], parser_init (token_stream l c []))"
    using all e(2) by fastforce
  have c2: "parse_commands (parser_init (token_stream l c (ts @ [nl]))) =
      ([c1], parser_init (token_stream l c []))"
    using all e(1) by blast
  show "length (fst (parse_commands (parser_init (token_stream l c ts)))) = 1"
    by (simp add: c1)
  show "diagnostics (snd (parse_commands (parser_init (token_stream l c ts)))) = []"
    by (simp add: c1)
  show "parse_commands (parser_init (token_stream l c ts)) =
        parse_commands (parser_init (token_stream l c (ts @ [nl])))"
    by (simp add: c1 c2)
qed

theorem parse_commands_runs_to_end_witness:
  "is_at_end (parser_init (token_stream 1 1 [])) \<and>
   advance (parser_init (token_stream 1 1 [])) =
     (current (parser_init (token_stream 1 1 [])), parser_init (token_stream 1 1 [])) \<and>
   consume_newline (parser_init (token_stream 1 1 [])) =
     (True, parser_init (token_stream 1 1 [])) \<and>
   instruction_tokens
     [token_at add_src TOK_ADD 0 3 1 1, token_at add_src TOK_IDENT 4 2 1 5,
      token_at add_src TOK_IDENT 7 2 1 8, token_at add_src TOK_NUM 10 1 1 11] \<and>
   tok_type (whole_token TOK_NL [CHR 0x0A]) = TOK_NL \<and>
   parse_commands (parser_init (token_stream 2 1
       [token_at add_src TOK_ADD 0 3 1 1, token_at add_src TOK_IDENT 4 2 1 5,
        token_at add_src TOK_IDENT 7 2 1 8, token_at add_src TOK_NUM 10 1 1 11])) =
   parse_commands (parser_init (token_stream 2 1
       ([token_at add_src TOK_ADD 0 3 1 1, token_at add_src TOK_IDENT 4 2 1 5,
         token_at add_src TOK_IDENT 7 2 1 8, token_at add_src TOK_NUM 10 1 1 11] @
        [whole_token TOK_NL [CHR 0x0A]])))"
proof -
  let ?p = "parser_init (token_stream 1 1 [])"
  let ?ts = "[token_at add_src TOK_ADD 0 3 1 1, token_at add_src TOK_IDENT 4 2 1 5,
      token_at add_src TOK_IDENT 7 2 1 8, token_at add_src TOK_NUM 10 1 1 11]"
  let ?nl = "whole_token TOK_NL [CHR 0x0A]"
  have h: "is_at_end ?p" "instruction_tokens ?ts" "tok_type ?nl = TOK_NL"
    by code_simp+
  show ?thesis
    using h parse_commands_runs_to_end [where p = ?p and ts = ?ts and nl = ?nl and l = 2 and c = 1] by blast
qed

text \<open>
  Claim C8: every command that \<^verbatim>\<open>parse_commands\<close> returns has both string flags
  false; a PRINT command holds a string in operand A and still has \<open>is_a_string\<close>
  false.
\<close>

theorem string_flags_never_set:
  "\<forall>c\<in>set (fst (parse_commands p)).
     \<not> is_a_string c \<and> \<not> is_b_string c \<and>
     (cmd_type c = CMD_PRINT \<longrightarrow> (\<exists>s. val_a c = Str_val s))"
  using parse_commands_command_ok [of p] by (simp add: command_ok_def)

theorem string_flags_never_set_witness:
  "hd (fst (parse_commands (parser_init print_lexer)))
     \<in> set (fst (parse_commands (parser_init print_lexer))) \<and>
   cmd_type (hd (fst (parse_commands (parser_init print_lexer)))) = CMD_PRINT \<and>
   \<not> is_a_string (hd (fst (parse_commands (parser_init print_lexer)))) \<and>
   \<not> is_b_string (hd (fst (parse_commands (parser_init print_lexer)))) \<and>
   (\<exists>s. val_a (hd (fst (parse_commands (parser_init print_lexer)))) = Str_val s)"
proof -
  let ?p = "parser_init print_lexer"
  have h: "hd (fst (parse_commands ?p)) \<in> set (fst (parse_commands ?p))"
    "cmd_type (hd (fst (parse_commands ?p))) = CMD_PRINT"
    by code_simp+
  show ?thesis
    using h string_flags_never_set [of ?p] by blast
qed

text \<open>
  Claim C9: a numeric token whose text is exactly \<^verbatim>\<open>0x\<close> or \<^verbatim>\<open>0b\<close>, a base prefix
  without digits, is accepted by \<^verbatim>\<open>parse_imm\<close> with the immediate value 0.
\<close>

theorem parse_imm_bare_prefix:
  assumes "tok_type (current p) = TOK_NUM"
    and "token_text (current p) = ''0x'' \<or> token_text (current p) = ''0b''"
  shows "parse_imm p = (Some (Num_val 0), snd (advance p))"
  using assms by (auto simp: parse_imm_literal literal_value_def numeral_value_def)

theorem parse_imm_bare_prefix_witness:
  "tok_type (current (parser_on (whole_token TOK_NUM ''0x''))) = TOK_NUM \<and>
   token_text (current (parser_on (whole_token TOK_NUM ''0x''))) = ''0x'' \<and>
   parse_imm (parser_on (whole_token TOK_NUM ''0x'')) =
     (Some (Num_val 0), snd (advance (parser_on (whole_token TOK_NUM ''0x''))))"
proof -
  let ?p = "parser_on (whole_token TOK_NUM ''0x'')"
  have h: "tok_type (current ?p) = TOK_NUM" by code_simp
  have l: "token_text (current ?p) = ''0x''" by code_simp
  show ?thesis
    using h l parse_imm_bare_prefix [of ?p] by simp
qed

text \<open>
  Claim C10: \<^verbatim>\<open>parse_variable\<close> accepts an identifier token whose text behind the leading
  \<^verbatim>\<open>x\<close> is any decimal form that \<^verbatim>\<open>strtol\<close> reads in full and that denotes an index
  from 0 to 31, a leading plus sign included: \<^verbatim>\<open>x+5\<close> is accepted as register 5, by
  \<^verbatim>\<open>parse_variable\<close> and by \<^verbatim>\<open>parse_variable_operand\<close>.
\<close>

theorem parse_variable_accepts_sign:
  assumes "lexed t" and "token_text t = CHR ''x'' # rest" and "rest \<noteq> []"
    and "int_text rest = Some n" and "0 \<le> n" and "n \<le> 31"
  shows "parse_variable t = Some n \<and>
         (tok_type t = TOK_IDENT \<and> current p = t \<longrightarrow>
            parse_variable_operand p = (Some (Base n), snd (advance p))) \<and>
         int_text ''+5'' = Some 5 \<and>
         parse_variable (whole_token TOK_IDENT ''x+5'') = Some 5 \<and>
         fst (parse_variable_operand (parser_on (whole_token TOK_IDENT ''x+5''))) = Some (Base 5)"
proof -
  have var: "is_variable t"
    using token_text_Cons [OF assms(2)] assms(3) by (simp add: is_variable_def)
  have reg: "register_number t = Some n"
    using assms by (simp add: register_number_def)
  have pv: "parse_variable t = Some n"
    using parse_variable_register [OF assms(1) var] reg by simp
  have pvo: "tok_type t = TOK_IDENT \<and> current p = t \<longrightarrow>
            parse_variable_operand p = (Some (Base n), snd (advance p))"
    using assms(1) reg by (auto simp: parse_variable_operand_register)
  have e1: "int_text ''+5'' = Some 5" by code_simp
  have e2: "parse_variable (whole_token TOK_IDENT ''x+5'') = Some 5" by code_simp
  have e3: "fst (parse_variable_operand (parser_on (whole_token TOK_IDENT ''x+5''))) = Some (Base 5)"
    by code_simp
  show ?thesis using pv pvo e1 e2 e3 by blast
qed

theorem parse_variable_accepts_sign_witness:
  "lexed (whole_token TOK_IDENT ''x+7'') \<and>
   token_text (whole_token TOK_IDENT ''x+7'') = CHR ''x'' # ''+7'' \<and>
   int_text ''+7'' = Some 7 \<and>
   tok_type (whole_token TOK_IDENT ''x+7'') = TOK_IDENT \<and>
   current (parser_on (whole_token TOK_IDENT ''x+7'')) = whole_token TOK_IDENT ''x+7'' \<and>
   parse_variable (whole_token TOK_IDENT ''x+7'') = Some 7 \<and>
   parse_variable_operand (parser_on (whole_token TOK_IDENT ''x+7'')) =
     (Some (Base 7), snd (advance (parser_on (whole_token TOK_IDENT ''x+7''))))"
proof -
  let ?t = "whole_token TOK_IDENT ''x+7''"
  have h: "lexed ?t" "token_text ?t = CHR ''x'' # ''+7''" "''+7'' \<noteq> []"
    "int_text ''+7'' = Some 7" "(0::int) \<le> 7" "(7::int) \<le> 31"
    by code_simp+
  have k: "tok_type ?t = TOK_IDENT" "current (parser_on ?t) = ?t"
    by code_simp+
  show ?thesis
    using h k parse_variable_accepts_sign [OF h, of "parser_on ?t"] by blast
qed

end
